theory Spec2Isabelle
  imports Main "HOL-Library.Sublist"

begin

section \<open>Paths\<close>

text \<open>
  The two modules \<^verbatim>\<open>adk_equilibrium.py\<close> and \<^verbatim>\<open>ifabp_water.py\<close> handle paths as
  Python strings and build them with \<^verbatim>\<open>os.path.join\<close>. Paths are modelled as
  \<^typ>\<open>string\<close>, and the functions of \<^verbatim>\<open>posixpath\<close> are written out on strings.
\<close>

definition sep :: char where
  "sep = CHR ''/''"

text \<open>
  \<^verbatim>\<open>posixpath.join(a, b)\<close>: an absolute \<^verbatim>\<open>b\<close> replaces \<^verbatim>\<open>a\<close>; otherwise
  \<^verbatim>\<open>b\<close> is appended, after a separator unless \<^verbatim>\<open>a\<close> is empty or ends in one.
\<close>

definition join :: "string \<Rightarrow> string \<Rightarrow> string" where
  "join a b =
     (if b \<noteq> [] \<and> hd b = sep then b
      else if a = [] \<or> last a = sep then a @ b
      else a @ sep # b)"

text \<open>
  \<^verbatim>\<open>posixpath.split(p)\<close>: the tail is what follows the last separator; the head
  is what precedes it, without its trailing separators unless it consists of
  separators only.
\<close>

definition rstrip_sep :: "string \<Rightarrow> string" where
  "rstrip_sep p = rev (dropWhile (\<lambda>c. c = sep) (rev p))"

definition path_split :: "string \<Rightarrow> string \<times> string" where
  "path_split p =
     (let tail = rev (takeWhile (\<lambda>c. c \<noteq> sep) (rev p));
          head = rev (dropWhile (\<lambda>c. c \<noteq> sep) (rev p))
      in (if head \<noteq> [] \<and> head \<noteq> replicate (length head) sep then rstrip_sep head else head,
          tail))"

text \<open>
  The first two statements of \<^verbatim>\<open>os.makedirs\<close>:
  \<^verbatim>\<open>head, tail = path.split(name); if not tail: head, tail = path.split(head)\<close>.
\<close>

definition head_tail :: "string \<Rightarrow> string \<times> string" where
  "head_tail name =
     (let ht = path_split name
      in if snd ht = [] then path_split (fst ht) else ht)"

section \<open>The world outside the program\<close>

text \<open>
  A regular file is kept with its text and with the SHA256 hex digest of its
  bytes. The program never computes a digest itself; the digest is what the
  checksum of a \<^verbatim>\<open>RemoteFileMetadata\<close> is compared with.
\<close>

record file_data =
  content :: string
  sha256 :: string

datatype entry = Directory | RegularFile file_data

text \<open>
  The state a fetch call reads and changes. The file system maps a path, as it
  is spelled, to the entry there; two spellings of one location (doubled
  separators, \<^verbatim>\<open>.\<close>, \<^verbatim>\<open>..\<close>, links) are different keys, and permission bits
  are not part of the state. \<open>transfer\<close> is the remote host: what retrieving a
  URL delivers, \<open>None\<close> when the transfer fails. \<open>net_calls\<close> lists the URLs
  requested so far and \<open>info_log\<close> the records given to \<^verbatim>\<open>logger.info\<close>.
\<close>

record world =
  fs :: "string \<rightharpoonup> entry"
  environ_data_home :: "string option"
  default_data_home :: string
  module_path :: string
  transfer :: "string \<rightharpoonup> file_data"
  net_calls :: "string list"
  info_log :: "string list"

text \<open>
  Python 3 exceptions. \<open>IOError\<close> carries the message of the \<^verbatim>\<open>raise IOError(...)\<close>
  of the two modules; the next four are the \<^verbatim>\<open>OSError\<close> subclasses the
  operating system calls raise, with the path; the last three are the errors of
  the downloader in the specification's taxonomy.
\<close>

datatype error =
    IOError string
  | FileExistsError string
  | FileNotFoundError string
  | NotADirectoryError string
  | IsADirectoryError string
  | IntegrityError string string string
  | TransientFetchError string string
  | FilesystemError string

text \<open>
  In Python 3 \<^verbatim>\<open>IOError\<close> is \<^verbatim>\<open>OSError\<close>, and the four file-system errors are
  subclasses of it. The specification does not place its own three errors in
  that hierarchy.
\<close>

fun is_IOError :: "error \<Rightarrow> bool" where
  "is_IOError (IOError _) = True"
| "is_IOError (FileExistsError _) = True"
| "is_IOError (FileNotFoundError _) = True"
| "is_IOError (NotADirectoryError _) = True"
| "is_IOError (IsADirectoryError _) = True"
| "is_IOError (IntegrityError _ _ _) = False"
| "is_IOError (TransientFetchError _ _) = False"
| "is_IOError (FilesystemError _) = False"


type_synonym 'a result = "(error + 'a) \<times> world"

subsection \<open>Operating system calls\<close>

text \<open>\<^verbatim>\<open>os.path.exists\<close>: false for the empty path, true for a file or a directory.\<close>

definition exists :: "world \<Rightarrow> string \<Rightarrow> bool" where
  "exists w p = (p \<noteq> [] \<and> fs w p \<noteq> None)"

text \<open>
  \<^verbatim>\<open>os.mkdir\<close>: fails for the empty path, when the path exists, when its
  parent does not, or when the parent is not a directory. A path with an empty
  head is relative to the working directory, which is there.
\<close>

definition mkdir :: "string \<Rightarrow> world \<Rightarrow> unit result" where
  "mkdir name w =
     (let parent = fst (head_tail name) in
      if name = [] then (Inl (FileNotFoundError name), w)
      else if fs w name \<noteq> None then (Inl (FileExistsError name), w)
      else if parent = [] then (Inr (), w\<lparr>fs := (fs w)(name \<mapsto> Directory)\<rparr>)
      else (case fs w parent of
              None \<Rightarrow> (Inl (FileNotFoundError name), w)
            | Some (RegularFile _) \<Rightarrow> (Inl (NotADirectoryError name), w)
            | Some Directory \<Rightarrow> (Inr (), w\<lparr>fs := (fs w)(name \<mapsto> Directory)\<rparr>)))"

text \<open>
  \<^verbatim>\<open>os.makedirs(name)\<close> with \<^verbatim>\<open>exist_ok=False\<close>: the missing ancestors are made
  first, a \<^verbatim>\<open>FileExistsError\<close> of that recursive call is swallowed, a name that
  ends in \<^verbatim>\<open>.\<close> is done once its head is there, and the directory itself is
  made last. An error leaves behind the directories made before it. The
  recursive call is on a shorter name; termination is proved among the lemmas,
  after the facts on \<open>path_split\<close> it needs.
\<close>

function makedirs :: "string \<Rightarrow> world \<Rightarrow> unit result" where
  "makedirs name w =
     (if fst (head_tail name) \<noteq> [] \<and> snd (head_tail name) \<noteq> []
         \<and> \<not> exists w (fst (head_tail name))
      then (case makedirs (fst (head_tail name)) w of
              (Inl (FileExistsError _), w') \<Rightarrow>
                if snd (head_tail name) = ''.'' then (Inr (), w') else mkdir name w'
            | (Inl e, w') \<Rightarrow> (Inl e, w')
            | (Inr _, w') \<Rightarrow>
                if snd (head_tail name) = ''.'' then (Inr (), w') else mkdir name w')
      else mkdir name w)"
  by pat_completeness auto

text \<open>
  Reading a text file, as \<^verbatim>\<open>codecs.open(path, encoding="utf-8")\<close> followed by
  \<^verbatim>\<open>read()\<close> does: the text of a regular file, an error for a directory or
  for no file.
\<close>

definition read_text :: "world \<Rightarrow> string \<Rightarrow> error + string" where
  "read_text w p =
     (case fs w p of
        None \<Rightarrow> Inl (FileNotFoundError p)
      | Some Directory \<Rightarrow> Inl (IsADirectoryError p)
      | Some (RegularFile f) \<Rightarrow> Inr (content f))"

section \<open>What the modules import from \<^verbatim>\<open>MDAnalysisData.base\<close>\<close>

text \<open>
  \<^verbatim>\<open>RemoteFileMetadata\<close> is declared in \<^verbatim>\<open>MDAnalysisData/base.py\<close>, which is not
  among the sources; its three fields are the keyword arguments the two
  modules construct it with.
\<close>

record remote_file_metadata =
  filename :: string
  url :: string
  checksum :: string

text \<open>
  \<^verbatim>\<open>Bunch\<close>, also of \<^verbatim>\<open>base.py\<close>, is a dictionary whose keys can be read and
  written as attributes: \<^verbatim>\<open>records.DESCR = text\<close> stores \<open>text\<close> under the key
  \<^verbatim>\<open>DESCR\<close>.
\<close>

type_synonym bunch = "string \<rightharpoonup> string"

text \<open>
  Modelled from the spec: \<^verbatim>\<open>get_data_home\<close> of \<^verbatim>\<open>MDAnalysisData/base.py\<close> is
  missing from the sources. Section 4.1, \<^verbatim>\<open>resolve_root(override?) -> path\<close>: "If
  override given (or an environment-level default configured process-wide), use
  it; otherwise use a fixed default location under the user's home directory."
\<close>

definition get_data_home :: "string option \<Rightarrow> world \<Rightarrow> string" where
  "get_data_home data_home w =
     (case data_home of
        Some p \<Rightarrow> p
      | None \<Rightarrow> (case environ_data_home w of
                   Some p \<Rightarrow> p
                 | None \<Rightarrow> default_data_home w))"

text \<open>
  Whether the file at a path is a regular file with the digest the metadata
  expects.
\<close>

definition verified :: "world \<Rightarrow> remote_file_metadata \<Rightarrow> string \<Rightarrow> bool" where
  "verified w metadata p =
     (case fs w p of
        Some (RegularFile f) \<Rightarrow> sha256 f = checksum metadata
      | _ \<Rightarrow> False)"

text \<open>
  Modelled from the spec: \<^verbatim>\<open>_fetch_remote\<close> of \<^verbatim>\<open>MDAnalysisData/base.py\<close> is
  missing from the sources. Section 4.2, \<^verbatim>\<open>fetch(metadata, dest_dir, force=false)
  -> local_path\<close>: a file that is there with the expected checksum is returned
  without network access unless \<open>force\<close>; otherwise the resource at the URL is
  streamed to a temporary file in \<open>dest_dir\<close>; a network failure is a
  \<open>TransientFetchError\<close> (after the bounded retries, whose outcome is \<open>transfer\<close>);
  a digest other than the checksum discards the temporary file and is an
  \<open>IntegrityError\<close>; a verified file is moved to the final path. The temporary
  file is gone in every outcome and is not in the state. A \<open>dest_dir\<close> that is no
  directory, or a directory at the final path, is a \<open>FilesystemError\<close>. The
  downloader is given the metadata and the directory, and nothing else of the
  dataset.
\<close>

definition fetch_remote :: "remote_file_metadata \<Rightarrow> string \<Rightarrow> bool \<Rightarrow> world \<Rightarrow> string result" where
  "fetch_remote metadata dest_dir force w =
     (let local_path = join dest_dir (filename metadata) in
      if exists w local_path \<and> \<not> force \<and> verified w metadata local_path then (Inr local_path, w)
      else if fs w dest_dir \<noteq> Some Directory then (Inl (FilesystemError local_path), w)
      else
        (let w1 = w\<lparr>net_calls := net_calls w @ [url metadata]\<rparr> in
         case transfer w (url metadata) of
           None \<Rightarrow> (Inl (TransientFetchError (url metadata) local_path), w1)
         | Some f \<Rightarrow>
             if sha256 f \<noteq> checksum metadata
             then (Inl (IntegrityError local_path (checksum metadata) (sha256 f)), w1)
             else if fs w local_path = Some Directory then (Inl (FilesystemError local_path), w1)
             else (Inr local_path, w1\<lparr>fs := (fs w)(local_path \<mapsto> RegularFile f)\<rparr>)))"

section \<open>The two dataset modules\<close>

datatype module = Adk_equilibrium | Ifabp_water

text \<open>The module constants \<^verbatim>\<open>NAME\<close>, \<^verbatim>\<open>DESCRIPTION\<close> and \<^verbatim>\<open>ARCHIVE\<close>.\<close>

fun NAME :: "module \<Rightarrow> string" where
  "NAME Adk_equilibrium = ''adk_equilibrium''"
| "NAME Ifabp_water = ''ifabp_water''"

fun DESCRIPTION :: "module \<Rightarrow> string" where
  "DESCRIPTION Adk_equilibrium = ''adk_equilibrium.rst''"
| "DESCRIPTION Ifabp_water = ''ifabp_water.rst''"

text \<open>
  \<^verbatim>\<open>ARCHIVE\<close> is a dictionary literal; \<^verbatim>\<open>ARCHIVE.items()\<close> yields its entries in
  the order they are written (Python 3.7 and later).
\<close>

fun ARCHIVE :: "module \<Rightarrow> (string \<times> remote_file_metadata) list" where
  "ARCHIVE Adk_equilibrium =
     [(''topology'',
       \<lparr>filename = ''adk4AKE.psf'',
        url = ''https://ndownloader.figshare.com/files/8672230'',
        checksum = ''1aa947d58fb41b6805dc1e7be4dbe65c6a8f4690f0bd7fc2ae03e7bd437085f4''\<rparr>),
      (''trajectory'',
       \<lparr>filename = ''1ake_007-nowater-core-dt240ps.dcd'',
        url = ''https://ndownloader.figshare.com/files/8672074'',
        checksum = ''598fcbcfcc425f6eafbe9997238320fcacc6a4613ecce061e1521732bab734bf''\<rparr>)]"
| "ARCHIVE Ifabp_water =
     [(''topology'',
       \<lparr>filename = ''ifabp_water.psf'',
        url = ''https://ndownloader.figshare.com/files/12980639'',
        checksum = ''ba40714318aabec537015dc550fe5bd5ac1ac0b853f5abdd2f0ae63af9cfcafa''\<rparr>),
      (''structure'',
       \<lparr>filename = ''ifabp_water_0.pdb'',
        url = ''https://ndownloader.figshare.com/files/12980636'',
        checksum = ''8ccf5f75fd85385921c0cb77f00281a93b933fc1261c42fc9492f43983448a72''\<rparr>),
      (''trajectory'',
       \<lparr>filename = ''rmsfit_ifabp_water_1.dcd'',
        url = ''https://ndownloader.figshare.com/files/12980642'',
        checksum = ''cebb48e58015abc8ff2f5bb7ba3eb7a289047f256351a8252bf1f29f9aaacf0e''\<rparr>)]"

text \<open>
  The statement \<^verbatim>\<open>if not exists(data_location): makedirs(data_location)\<close> of
  both functions.
\<close>

definition ensure_dataset_dir :: "string \<Rightarrow> world \<Rightarrow> unit result" where
  "ensure_dataset_dir data_location w =
     (if \<not> exists w data_location then makedirs data_location w else (Inr (), w))"

text \<open>The two messages the loop formats.\<close>

definition not_found_message :: "string \<Rightarrow> string \<Rightarrow> string" where
  "not_found_message file_type local_path =
     ''Data '' @ file_type @ ''='' @ local_path
       @ '' not found and `download_if_missing` is False''"

definition downloading_message :: "string \<Rightarrow> string \<Rightarrow> string \<Rightarrow> string" where
  "downloading_message file_type u local_path =
     ''Downloading '' @ file_type @ '': '' @ u @ '' -> '' @ local_path @ ''...''"

text \<open>
  The loop \<^verbatim>\<open>for file_type, meta in ARCHIVE.items()\<close>, the same in both
  functions: the path is entered in \<open>records\<close> first; a file that exists is
  left alone, whatever it holds; a missing one raises when downloads are
  disabled and is handed to the downloader otherwise, whose error ends the
  loop.
\<close>

fun fetch_files ::
  "(string \<times> remote_file_metadata) list \<Rightarrow> string \<Rightarrow> bool \<Rightarrow> bunch \<Rightarrow> world \<Rightarrow> bunch result" where
  "fetch_files [] data_location download_if_missing records w = (Inr records, w)"
| "fetch_files ((file_type, meta) # items) data_location download_if_missing records w =
     (let local_path = join data_location (filename meta);
          records = records(file_type \<mapsto> local_path)
      in if \<not> exists w local_path then
           if \<not> download_if_missing then
             (Inl (IOError (not_found_message file_type local_path)), w)
           else
             (case fetch_remote meta data_location False
                     (w\<lparr>info_log := info_log w @ [downloading_message file_type (url meta) local_path]\<rparr>) of
                (Inl e, w') \<Rightarrow> (Inl e, w')
              | (Inr archive_path, w') \<Rightarrow>
                  fetch_files items data_location download_if_missing records w')
         else fetch_files items data_location download_if_missing records w)"

text \<open>
  \<^verbatim>\<open>join(module_path, 'descr', DESCRIPTION)\<close>, where \<^verbatim>\<open>module_path\<close> is the
  directory of the installed package.
\<close>

definition descr_path :: "world \<Rightarrow> string \<Rightarrow> string" where
  "descr_path w description = join (join (module_path w) ''descr'') description"

text \<open>\<^verbatim>\<open>fetch_adk_equilibrium(data_home=None, download_if_missing=True)\<close>.\<close>

definition fetch_adk_equilibrium :: "string option \<Rightarrow> bool \<Rightarrow> world \<Rightarrow> bunch result" where
  "fetch_adk_equilibrium data_home download_if_missing w =
     (let name = NAME Adk_equilibrium;
          data_location = join (get_data_home data_home w) name
      in case ensure_dataset_dir data_location w of
           (Inl e, w1) \<Rightarrow> (Inl e, w1)
         | (Inr _, w1) \<Rightarrow>
             (case fetch_files (ARCHIVE Adk_equilibrium) data_location download_if_missing
                     Map.empty w1 of
                (Inl e, w2) \<Rightarrow> (Inl e, w2)
              | (Inr records, w2) \<Rightarrow>
                  (case read_text w2 (descr_path w2 (DESCRIPTION Adk_equilibrium)) of
                     Inl e \<Rightarrow> (Inl e, w2)
                   | Inr text \<Rightarrow> (Inr (records(''DESCR'' \<mapsto> text)), w2))))"

text \<open>\<^verbatim>\<open>fetch_ifabp_water(data_home=None, download_if_missing=True)\<close>.\<close>

definition fetch_ifabp_water :: "string option \<Rightarrow> bool \<Rightarrow> world \<Rightarrow> bunch result" where
  "fetch_ifabp_water data_home download_if_missing w =
     (let name = NAME Ifabp_water;
          data_location = join (get_data_home data_home w) name
      in case ensure_dataset_dir data_location w of
           (Inl e, w1) \<Rightarrow> (Inl e, w1)
         | (Inr _, w1) \<Rightarrow>
             (case fetch_files (ARCHIVE Ifabp_water) data_location download_if_missing
                     Map.empty w1 of
                (Inl e, w2) \<Rightarrow> (Inl e, w2)
              | (Inr records, w2) \<Rightarrow>
                  (case read_text w2 (descr_path w2 (DESCRIPTION Ifabp_water)) of
                     Inl e \<Rightarrow> (Inl e, w2)
                   | Inr text \<Rightarrow> (Inr (records(''DESCR'' \<mapsto> text)), w2))))"

text \<open>The fetch function of a module.\<close>

fun fetch :: "module \<Rightarrow> string option \<Rightarrow> bool \<Rightarrow> world \<Rightarrow> bunch result" where
  "fetch Adk_equilibrium = fetch_adk_equilibrium"
| "fetch Ifabp_water = fetch_ifabp_water"

text \<open>The directory of a module's dataset and the path of one of its files.\<close>

definition data_location :: "module \<Rightarrow> string option \<Rightarrow> world \<Rightarrow> string" where
  "data_location m data_home w = join (get_data_home data_home w) (NAME m)"

definition local_path :: "module \<Rightarrow> string option \<Rightarrow> world \<Rightarrow> remote_file_metadata \<Rightarrow> string" where
  "local_path m data_home w meta = join (data_location m data_home w) (filename meta)"

section \<open>Notions for the statements\<close>

text \<open>
  What \<^verbatim>\<open>makedirs\<close> may do to a state: nothing but the file system changes, and
  there only directories appear, at paths that held nothing and are no longer
  than \<open>n\<close>.
\<close>

definition dirs_added :: "nat \<Rightarrow> world \<Rightarrow> world \<Rightarrow> bool" where
  "dirs_added n w w' \<longleftrightarrow>
     (\<exists>f. w' = w\<lparr>fs := f\<rparr>) \<and>
     (\<forall>p. fs w' p = fs w p \<or> (fs w p = None \<and> fs w' p = Some Directory \<and> p \<noteq> [] \<and> length p \<le> n))"

text \<open>
  The errors of the recursive call that \<^verbatim>\<open>makedirs\<close> lets through: all but
  \<^verbatim>\<open>FileExistsError\<close>.
\<close>

definition fatal :: "error + unit \<Rightarrow> bool" where
  "fatal r = (case r of Inl (FileExistsError _) \<Rightarrow> False | Inl _ \<Rightarrow> True | Inr _ \<Rightarrow> False)"

text \<open>
  The entries the loop writes into \<open>records\<close>: they depend on the directory
  and the metadata, not on the state.
\<close>

fun assign_paths :: "(string \<times> remote_file_metadata) list \<Rightarrow> string \<Rightarrow> bunch \<Rightarrow> bunch" where
  "assign_paths [] loc records = records"
| "assign_paths ((file_type, meta) # items) loc records =
     assign_paths items loc (records(file_type \<mapsto> join loc (filename meta)))"

text \<open>The local paths of the files of an archive.\<close>

definition paths_of :: "(string \<times> remote_file_metadata) list \<Rightarrow> string \<Rightarrow> string set" where
  "paths_of items loc = (\<lambda>item. join loc (filename (snd item))) ` set items"

text \<open>
  What the loop over the files may do to a state: the file system, the list of
  network calls and the log change, and in the file system only regular files
  appear, at paths of \<open>P\<close> that did not exist.
\<close>

definition files_added :: "string set \<Rightarrow> world \<Rightarrow> world \<Rightarrow> bool" where
  "files_added P w w' \<longleftrightarrow>
     (\<exists>f n l. w' = w\<lparr>fs := f, net_calls := n, info_log := l\<rparr>) \<and>
     (\<forall>p. fs w' p = fs w p \<or> (p \<in> P \<and> \<not> exists w p \<and> (\<exists>d. fs w' p = Some (RegularFile d))))"

text \<open>The first role, in the order of the items, whose file is not there.\<close>

definition first_missing ::
  "world \<Rightarrow> string \<Rightarrow> (string \<times> remote_file_metadata) list \<Rightarrow> (string \<times> remote_file_metadata) option" where
  "first_missing w loc items = find (\<lambda>item. \<not> exists w (join loc (filename (snd item)))) items"

text \<open>A name that joins as one more component: not empty, without a separator.\<close>

definition simple :: "string \<Rightarrow> bool" where
  "simple n = (n \<noteq> [] \<and> sep \<notin> set n)"

text \<open>What the downloader can raise for a file.\<close>

definition download_error :: "remote_file_metadata \<Rightarrow> string \<Rightarrow> error \<Rightarrow> bool" where
  "download_error meta p e \<longleftrightarrow>
     e = FilesystemError p \<or> e = TransientFetchError (url meta) p
     \<or> (\<exists>actual. e = IntegrityError p (checksum meta) actual)"

text \<open>The errors of the operating system calls, as opposed to the module's and the downloader's.\<close>

fun os_error :: "error \<Rightarrow> bool" where
  "os_error (FileExistsError _) = True"
| "os_error (FileNotFoundError _) = True"
| "os_error (NotADirectoryError _) = True"
| "os_error (IsADirectoryError _) = True"
| "os_error _ = False"

section \<open>Concrete states\<close>

text \<open>
  A data home \<^verbatim>\<open>/data\<close> without a dataset directory, the package installed in
  \<^verbatim>\<open>/pkg\<close> with the description of \<^verbatim>\<open>adk_equilibrium\<close>, and a host that
  serves every file of that archive with the expected digest. The text of the
  two data files is not known here; the role stands in for it.
\<close>

definition adk_descr :: file_data where
  "adk_descr =
     \<lparr>content = ''AdK equilibrium trajectory without water'',
      sha256 = ''ea67f75cf7df77147949c5ab0ae5190d2637e1592f8a6524046cd660d6cf75bb''\<rparr>"

definition good_host :: "string \<rightharpoonup> file_data" where
  "good_host =
     map_of (map (\<lambda>item. (url (snd item), \<lparr>content = fst item, sha256 = checksum (snd item)\<rparr>))
       (ARCHIVE Adk_equilibrium))"

definition fresh_world :: world where
  "fresh_world =
     \<lparr>fs = [''/'' \<mapsto> Directory, ''/data'' \<mapsto> Directory, ''/pkg'' \<mapsto> Directory,
            ''/pkg/descr'' \<mapsto> Directory,
            ''/pkg/descr/adk_equilibrium.rst'' \<mapsto> RegularFile adk_descr],
      environ_data_home = None,
      default_data_home = ''/home/user/MDAnalysis_data'',
      module_path = ''/pkg'',
      transfer = good_host,
      net_calls = [],
      info_log = []\<rparr>"

text \<open>The bundle and the state after a fetch of \<^verbatim>\<open>adk_equilibrium\<close> in that world.\<close>

definition adk_bundle :: bunch where
  "adk_bundle =
     [''topology'' \<mapsto> ''/data/adk_equilibrium/adk4AKE.psf'',
      ''trajectory'' \<mapsto> ''/data/adk_equilibrium/1ake_007-nowater-core-dt240ps.dcd'',
      ''DESCR'' \<mapsto> ''AdK equilibrium trajectory without water'']"

definition fetched_world :: world where
  "fetched_world =
     fresh_world
       \<lparr>fs := (fs fresh_world)
          (''/data/adk_equilibrium'' \<mapsto> Directory,
           ''/data/adk_equilibrium/adk4AKE.psf'' \<mapsto>
             RegularFile \<lparr>content = ''topology'',
               sha256 = ''1aa947d58fb41b6805dc1e7be4dbe65c6a8f4690f0bd7fc2ae03e7bd437085f4''\<rparr>,
           ''/data/adk_equilibrium/1ake_007-nowater-core-dt240ps.dcd'' \<mapsto>
             RegularFile \<lparr>content = ''trajectory'',
               sha256 = ''598fcbcfcc425f6eafbe9997238320fcacc6a4613ecce061e1521732bab734bf''\<rparr>),
        net_calls :=
          [''https://ndownloader.figshare.com/files/8672230'',
           ''https://ndownloader.figshare.com/files/8672074''],
        info_log :=
          [''Downloading topology: https://ndownloader.figshare.com/files/8672230 -> /data/adk_equilibrium/adk4AKE.psf...'',
           ''Downloading trajectory: https://ndownloader.figshare.com/files/8672074 -> /data/adk_equilibrium/1ake_007-nowater-core-dt240ps.dcd...'']\<rparr>"

text \<open>
  A second state: the dataset directory is there and holds the topology file,
  the trajectory file is missing.
\<close>

definition partial_world :: world where
  "partial_world =
     fresh_world
       \<lparr>fs := (fs fresh_world)
          (''/data/adk_equilibrium'' \<mapsto> Directory,
           ''/data/adk_equilibrium/adk4AKE.psf'' \<mapsto>
             RegularFile \<lparr>content = ''topology'',
               sha256 = ''1aa947d58fb41b6805dc1e7be4dbe65c6a8f4690f0bd7fc2ae03e7bd437085f4''\<rparr>)\<rparr>"

text \<open>
  A third state: the dataset directory is there and empty, and the host
  answers the URL of the topology file with an empty file, whose digest is not
  the expected one.
\<close>

definition bad_host_world :: world where
  "bad_host_world =
     fresh_world
       \<lparr>fs := (fs fresh_world)(''/data/adk_equilibrium'' \<mapsto> Directory),
        transfer :=
          [''https://ndownloader.figshare.com/files/8672230'' \<mapsto>
             \<lparr>content = [],
              sha256 = ''e3b0c44298fc1c149afbf4c8996fb92427ae41e4649b934ca495991b7852b855''\<rparr>]\<rparr>"

definition bad_host_error :: error where
  "bad_host_error =
     IntegrityError ''/data/adk_equilibrium/adk4AKE.psf''
       ''1aa947d58fb41b6805dc1e7be4dbe65c6a8f4690f0bd7fc2ae03e7bd437085f4''
       ''e3b0c44298fc1c149afbf4c8996fb92427ae41e4649b934ca495991b7852b855''"

definition bad_host_after :: world where
  "bad_host_after =
     bad_host_world
       \<lparr>net_calls := [''https://ndownloader.figshare.com/files/8672230''],
        info_log :=
          [''Downloading topology: https://ndownloader.figshare.com/files/8672230 -> /data/adk_equilibrium/adk4AKE.psf...'']\<rparr>"

text \<open>
  A fourth state: both files of the dataset are cached, and the topology file
  is empty, so its digest (the SHA256 of no bytes) is not the expected one.
\<close>

definition corrupt_world :: world where
  "corrupt_world =
     fresh_world
       \<lparr>fs := (fs fresh_world)
          (''/data/adk_equilibrium'' \<mapsto> Directory,
           ''/data/adk_equilibrium/adk4AKE.psf'' \<mapsto>
             RegularFile \<lparr>content = [],
               sha256 = ''e3b0c44298fc1c149afbf4c8996fb92427ae41e4649b934ca495991b7852b855''\<rparr>,
           ''/data/adk_equilibrium/1ake_007-nowater-core-dt240ps.dcd'' \<mapsto>
             RegularFile \<lparr>content = ''trajectory'',
               sha256 = ''598fcbcfcc425f6eafbe9997238320fcacc6a4613ecce061e1521732bab734bf''\<rparr>)\<rparr>"

definition adk_topology :: remote_file_metadata where
  "adk_topology =
     \<lparr>filename = ''adk4AKE.psf'',
      url = ''https://ndownloader.figshare.com/files/8672230'',
      checksum = ''1aa947d58fb41b6805dc1e7be4dbe65c6a8f4690f0bd7fc2ae03e7bd437085f4''\<rparr>"



definition occupied_world :: world where
  "occupied_world =
     fresh_world
       \<lparr>fs := (fs fresh_world)
          (''/data/adk_equilibrium'' \<mapsto> Directory,
           ''/data/adk_equilibrium/adk4AKE.psf'' \<mapsto> Directory,
           ''/data/adk_equilibrium/1ake_007-nowater-core-dt240ps.dcd'' \<mapsto>
             RegularFile \<lparr>content = ''trajectory'',
               sha256 = ''598fcbcfcc425f6eafbe9997238320fcacc6a4613ecce061e1521732bab734bf''\<rparr>)\<rparr>"

section \<open>Lemmas\<close>

lemma length_rstrip_sep: "length (rstrip_sep p) \<le> length p"
  unfolding rstrip_sep_def
  by (metis length_dropWhile_le length_rev)

lemma length_path_split:
  "length (fst (path_split p)) + length (snd (path_split p)) \<le> length p"
proof -
  let ?t = "rev (takeWhile (\<lambda>c. c \<noteq> sep) (rev p))"
  let ?h = "rev (dropWhile (\<lambda>c. c \<noteq> sep) (rev p))"
  have "length ?h + length ?t = length p"
    by (metis add.commute length_append length_rev takeWhile_dropWhile_id)
  moreover have "length (rstrip_sep ?h) \<le> length ?h"
    by (rule length_rstrip_sep)
  ultimately show ?thesis
    by (auto simp: path_split_def Let_def)
qed

lemma length_head_tail:
  "length (fst (head_tail name)) + length (snd (head_tail name)) \<le> length name"
proof (cases "snd (path_split name) = []")
  case True
  have "length (fst (path_split (fst (path_split name)))) +
        length (snd (path_split (fst (path_split name)))) \<le> length (fst (path_split name))"
    by (rule length_path_split)
  moreover have "length (fst (path_split name)) \<le> length name"
    using length_path_split [of name] by simp
  ultimately show ?thesis
    using True by (simp add: head_tail_def Let_def)
next
  case False
  then show ?thesis
    using length_path_split [of name] by (simp add: head_tail_def Let_def)
qed

lemma head_shorter:
  "snd (head_tail name) \<noteq> [] \<Longrightarrow> length (fst (head_tail name)) < length name"
  using length_head_tail [of name] by (cases "snd (head_tail name)") auto

termination makedirs
  by (relation "measure (\<lambda>(name, w). length name)") (auto simp: head_shorter)

declare makedirs.simps [simp del]

lemma join_suffix: "suffix b (join a b)"
  by (auto simp: join_def suffix_def)

lemma join_nonempty: "b \<noteq> [] \<Longrightarrow> join a b \<noteq> []"
  by (auto simp: join_def)

lemma join_longer: "b \<noteq> [] \<Longrightarrow> hd b \<noteq> sep \<Longrightarrow> length a < length (join a b)"
  by (auto simp: join_def)

lemma join_decompose:
  assumes "b \<noteq> []" "hd b \<noteq> sep"
  obtains x where "join a b = x @ b" "x = [] \<or> last x = sep" "length a \<le> length x"
proof (cases "a = [] \<or> last a = sep")
  case True
  then have "join a b = a @ b" using assms by (simp add: join_def)
  then show ?thesis using True that by blast
next
  case False
  then have "join a b = (a @ [sep]) @ b" using assms by (simp add: join_def)
  then show ?thesis using that [of "a @ [sep]"] by simp
qed

lemma split_at_last_sep:
  assumes "sep \<notin> set n" "x = [] \<or> last x = sep"
  shows "rev (takeWhile (\<lambda>c. c \<noteq> sep) (rev (x @ n))) = n"
    and "rev (dropWhile (\<lambda>c. c \<noteq> sep) (rev (x @ n))) = x"
proof -
  have x: "takeWhile (\<lambda>c. c \<noteq> sep) (rev x) = []" "dropWhile (\<lambda>c. c \<noteq> sep) (rev x) = rev x"
    using assms(2) by (cases x rule: rev_cases; simp)+
  have t: "takeWhile (\<lambda>c. c \<noteq> sep) (rev n @ rev x) = rev n @ takeWhile (\<lambda>c. c \<noteq> sep) (rev x)"
    by (rule takeWhile_append2) (use assms(1) in auto)
  have d: "dropWhile (\<lambda>c. c \<noteq> sep) (rev n @ rev x) = dropWhile (\<lambda>c. c \<noteq> sep) (rev x)"
    by (rule dropWhile_append2) (use assms(1) in auto)
  show "rev (takeWhile (\<lambda>c. c \<noteq> sep) (rev (x @ n))) = n"
    using t x by simp
  show "rev (dropWhile (\<lambda>c. c \<noteq> sep) (rev (x @ n))) = x"
    using d x by simp
qed

lemma path_split_join:
  assumes "sep \<notin> set n" "n \<noteq> []"
  shows "snd (path_split (join a n)) = n"
proof -
  have "hd n \<noteq> sep" using assms by (cases n) auto
  then obtain x where x: "join a n = x @ n" "x = [] \<or> last x = sep"
    using join_decompose [OF assms(2)] by metis
  show ?thesis
    unfolding x(1) path_split_def Let_def using split_at_last_sep [OF assms(1) x(2)] by simp
qed

lemma head_tail_join:
  assumes "sep \<notin> set n" "n \<noteq> []"
  shows "snd (head_tail (join a n)) = n" "fst (head_tail (join a n)) = fst (path_split (join a n))"
  using path_split_join [OF assms] assms(2) by (simp_all add: head_tail_def Let_def)

lemma mkdir_frame:
  "mkdir name w = (r, w') \<Longrightarrow>
     w' = w \<or> (r = Inr () \<and> name \<noteq> [] \<and> fs w name = None \<and> w' = w\<lparr>fs := (fs w)(name \<mapsto> Directory)\<rparr>)"
  by (auto simp: mkdir_def Let_def split: if_splits option.splits entry.splits)

lemma mkdir_Inr:
  "mkdir name w = (Inr u, w') \<Longrightarrow>
     name \<noteq> [] \<and> fs w name = None \<and> w' = w\<lparr>fs := (fs w)(name \<mapsto> Directory)\<rparr>
     \<and> (fst (head_tail name) = [] \<or> fs w (fst (head_tail name)) = Some Directory)"
  by (auto simp: mkdir_def Let_def split: if_splits option.splits entry.splits)

lemma dirs_added_refl: "dirs_added n w w"
proof -
  have "w = w\<lparr>fs := fs w\<rparr>" by simp
  then show ?thesis unfolding dirs_added_def by blast
qed

lemma dirs_added_trans:
  assumes a: "dirs_added n w w1" and b: "dirs_added k w1 w2" and nk: "n \<le> k"
  shows "dirs_added k w w2"
proof -
  obtain f1 f2 where "w1 = w\<lparr>fs := f1\<rparr>" "w2 = w1\<lparr>fs := f2\<rparr>"
    using a b unfolding dirs_added_def by blast
  then have "w2 = w\<lparr>fs := f2\<rparr>" by simp
  moreover have "fs w2 p = fs w p \<or> (fs w p = None \<and> fs w2 p = Some Directory \<and> p \<noteq> [] \<and> length p \<le> k)" for p
  proof -
    have 1: "fs w1 p = fs w p \<or> (fs w p = None \<and> fs w1 p = Some Directory \<and> p \<noteq> [] \<and> length p \<le> n)"
      using a unfolding dirs_added_def by blast
    have 2: "fs w2 p = fs w1 p \<or> (fs w1 p = None \<and> fs w2 p = Some Directory \<and> p \<noteq> [] \<and> length p \<le> k)"
      using b unfolding dirs_added_def by blast
    show ?thesis using 1 2 nk by auto
  qed
  ultimately show ?thesis unfolding dirs_added_def by blast
qed

lemma dirs_added_mono:
  assumes "dirs_added n w w'" "n \<le> k"
  shows "dirs_added k w w'"
  using dirs_added_trans [OF assms(1) dirs_added_refl assms(2)] .

lemma mkdir_dirs_added:
  assumes "mkdir name w = (r, w')"
  shows "dirs_added (length name) w w'"
proof -
  from mkdir_frame [OF assms] show ?thesis
  proof
    assume "w' = w"
    then show ?thesis by (simp add: dirs_added_refl)
  next
    assume c: "r = Inr () \<and> name \<noteq> [] \<and> fs w name = None \<and> w' = w\<lparr>fs := (fs w)(name \<mapsto> Directory)\<rparr>"
    then have "\<exists>f. w' = w\<lparr>fs := f\<rparr>" by blast
    moreover have "fs w' p = fs w p \<or> (fs w p = None \<and> fs w' p = Some Directory \<and> p \<noteq> [] \<and> length p \<le> length name)" for p
      using c by (cases "p = name") simp_all
    ultimately show ?thesis unfolding dirs_added_def by blast
  qed
qed

lemma makedirs_unfold:
  "makedirs name w =
     (if fst (head_tail name) \<noteq> [] \<and> snd (head_tail name) \<noteq> []
         \<and> \<not> exists w (fst (head_tail name))
      then (if fatal (fst (makedirs (fst (head_tail name)) w))
            then makedirs (fst (head_tail name)) w
            else if snd (head_tail name) = ''.''
              then (Inr (), snd (makedirs (fst (head_tail name)) w))
              else mkdir name (snd (makedirs (fst (head_tail name)) w)))
      else mkdir name w)"
  apply (subst makedirs.simps)
  apply (cases "makedirs (fst (head_tail name)) w")
  subgoal for r1 w1
    apply (cases r1)
    subgoal for e by (cases e) (simp_all add: fatal_def)
    subgoal by (simp add: fatal_def)
    done
  done

lemma makedirs_dirs_added:
  "makedirs name w = (r, w') \<Longrightarrow> dirs_added (length name) w w'"
proof (induction name w arbitrary: r w' rule: makedirs.induct)
  case (1 name w)
  let ?h = "fst (head_tail name)" and ?t = "snd (head_tail name)"
  show ?case
  proof (cases "?h \<noteq> [] \<and> ?t \<noteq> [] \<and> \<not> exists w ?h")
    case False
    then have "makedirs name w = mkdir name w"
      using makedirs_unfold [of name w] by presburger
    then have "mkdir name w = (r, w')"
      using "1.prems" by simp
    then show ?thesis by (rule mkdir_dirs_added)
  next
    case True
    obtain r1 w1 where r1: "makedirs ?h w = (r1, w1)" by (cases "makedirs ?h w")
    have lt: "length ?h < length name" using True by (simp add: head_shorter)
    have "dirs_added (length ?h) w w1"
      using "1.IH" [OF True r1] .
    then have a1: "dirs_added (length name) w w1"
      by (rule dirs_added_mono) (use lt in simp)
    have "makedirs name w = (if fatal (fst (makedirs ?h w)) then makedirs ?h w
            else if ?t = ''.'' then (Inr (), snd (makedirs ?h w))
            else mkdir name (snd (makedirs ?h w)))"
      using True makedirs_unfold [of name w] by presburger
    then have "makedirs name w = (if fatal r1 then (r1, w1)
            else if ?t = ''.'' then (Inr (), w1) else mkdir name w1)"
      by (simp only: r1 fst_conv snd_conv)
    then have "(r, w') = (r1, w1) \<or> (r, w') = (Inr (), w1) \<or> mkdir name w1 = (r, w')"
      using "1.prems" by (simp split: if_splits)
    then show ?thesis
    proof (elim disjE)
      assume "mkdir name w1 = (r, w')"
      then have "dirs_added (length name) w1 w'" by (rule mkdir_dirs_added)
      with a1 show ?thesis by (rule dirs_added_trans) simp
    qed (use a1 in simp_all)
  qed
qed

lemma files_added_refl: "files_added P w w"
proof -
  have "w = w\<lparr>fs := fs w, net_calls := net_calls w, info_log := info_log w\<rparr>" by simp
  then show ?thesis unfolding files_added_def by blast
qed

lemma files_added_exists: "files_added P w w' \<Longrightarrow> exists w p \<Longrightarrow> exists w' p"
  unfolding files_added_def exists_def by metis

lemma files_added_trans:
  assumes a: "files_added P w w1" and b: "files_added Q w1 w2" and sub: "P \<subseteq> R" "Q \<subseteq> R"
  shows "files_added R w w2"
proof -
  obtain f1 n1 l1 f2 n2 l2 where
    "w1 = w\<lparr>fs := f1, net_calls := n1, info_log := l1\<rparr>"
    "w2 = w1\<lparr>fs := f2, net_calls := n2, info_log := l2\<rparr>"
    using a b unfolding files_added_def by blast
  then have "w2 = w\<lparr>fs := f2, net_calls := n2, info_log := l2\<rparr>" by simp
  moreover have "fs w2 p = fs w p \<or> (p \<in> R \<and> \<not> exists w p \<and> (\<exists>d. fs w2 p = Some (RegularFile d)))" for p
  proof -
    have 1: "fs w1 p = fs w p \<or> (p \<in> P \<and> \<not> exists w p \<and> (\<exists>d. fs w1 p = Some (RegularFile d)))"
      using a unfolding files_added_def by blast
    have 2: "fs w2 p = fs w1 p \<or> (p \<in> Q \<and> \<not> exists w1 p \<and> (\<exists>d. fs w2 p = Some (RegularFile d)))"
      using b unfolding files_added_def by blast
    have 3: "exists w p \<Longrightarrow> exists w1 p" using a by (rule files_added_exists)
    show ?thesis using 1 2 3 sub by auto
  qed
  ultimately show ?thesis unfolding files_added_def by blast
qed

lemma files_added_mono:
  assumes "files_added P w w'" "P \<subseteq> R"
  shows "files_added R w w'"
  using files_added_trans [OF assms(1) files_added_refl [of P w'] assms(2) assms(2)] .

lemma files_added_log:
  assumes "files_added P (w\<lparr>info_log := l\<rparr>) w'"
  shows "files_added P w w'"
proof -
  have "files_added {} w (w\<lparr>info_log := l\<rparr>)"
  proof -
    have "w\<lparr>info_log := l\<rparr> = w\<lparr>fs := fs w, net_calls := net_calls w, info_log := l\<rparr>" by simp
    then have "\<exists>f n l'. w\<lparr>info_log := l\<rparr> = w\<lparr>fs := f, net_calls := n, info_log := l'\<rparr>" by blast
    then show ?thesis unfolding files_added_def by simp
  qed
  then show ?thesis using assms by (rule files_added_trans) simp_all
qed

lemma fetch_remote_frame:
  assumes "fetch_remote meta dir False w = (r, w')" "\<not> exists w (join dir (filename meta))"
  shows "files_added {join dir (filename meta)} w w'"
proof -
  let ?lp = "join dir (filename meta)"
  have "w' = w \<or> w' = w\<lparr>net_calls := net_calls w @ [url meta]\<rparr>
        \<or> (\<exists>f. w' = w\<lparr>net_calls := net_calls w @ [url meta], fs := (fs w)(?lp \<mapsto> RegularFile f)\<rparr>)"
    using assms by (auto simp: fetch_remote_def Let_def split: if_splits option.splits)
  then show ?thesis
  proof (elim disjE exE)
    assume "w' = w" then show ?thesis by (simp add: files_added_refl)
  next
    assume c: "w' = w\<lparr>net_calls := net_calls w @ [url meta]\<rparr>"
    then have "w' = w\<lparr>fs := fs w, net_calls := net_calls w @ [url meta], info_log := info_log w\<rparr>" by simp
    then have "\<exists>f n l. w' = w\<lparr>fs := f, net_calls := n, info_log := l\<rparr>" by blast
    then show ?thesis unfolding files_added_def using c by simp
  next
    fix f assume c: "w' = w\<lparr>net_calls := net_calls w @ [url meta], fs := (fs w)(?lp \<mapsto> RegularFile f)\<rparr>"
    then have "w' = w\<lparr>fs := (fs w)(?lp \<mapsto> RegularFile f), net_calls := net_calls w @ [url meta], info_log := info_log w\<rparr>" by simp
    then have "\<exists>f n l. w' = w\<lparr>fs := f, net_calls := n, info_log := l\<rparr>" by blast
    moreover have "fs w' p = fs w p \<or> (p \<in> {?lp} \<and> \<not> exists w p \<and> (\<exists>d. fs w' p = Some (RegularFile d)))" for p
      using c assms(2) by (cases "p = ?lp") simp_all
    ultimately show ?thesis unfolding files_added_def by blast
  qed
qed

lemma fetch_remote_Inr:
  assumes "fetch_remote meta dir False w = (Inr x, w')" "\<not> exists w (join dir (filename meta))"
  shows "x = join dir (filename meta) \<and> fs w' (join dir (filename meta)) \<noteq> None"
  using assms by (auto simp: fetch_remote_def Let_def split: if_splits option.splits)

lemma paths_of_Cons:
  "paths_of ((ft, meta) # items) loc = insert (join loc (filename meta)) (paths_of items loc)"
  by (simp add: paths_of_def)

lemma fetch_files_step:
  "fetch_files ((ft, meta) # items) loc dl recs w =
     (if exists w (join loc (filename meta))
      then fetch_files items loc dl (recs(ft \<mapsto> join loc (filename meta))) w
      else if \<not> dl then (Inl (IOError (not_found_message ft (join loc (filename meta)))), w)
      else if isl (fst (fetch_remote meta loc False
                 (w\<lparr>info_log := info_log w @ [downloading_message ft (url meta) (join loc (filename meta))]\<rparr>)))
      then (Inl (projl (fst (fetch_remote meta loc False
                 (w\<lparr>info_log := info_log w @ [downloading_message ft (url meta) (join loc (filename meta))]\<rparr>)))),
            snd (fetch_remote meta loc False
                 (w\<lparr>info_log := info_log w @ [downloading_message ft (url meta) (join loc (filename meta))]\<rparr>)))
      else fetch_files items loc dl (recs(ft \<mapsto> join loc (filename meta)))
            (snd (fetch_remote meta loc False
                 (w\<lparr>info_log := info_log w @ [downloading_message ft (url meta) (join loc (filename meta))]\<rparr>))))"
  by (simp add: Let_def split: prod.splits sum.splits)

lemmas fetch_files_Cons = fetch_files.simps(2)

declare fetch_files.simps(2) [simp del]

lemma fetch_files_frame:
  "fetch_files items loc dl recs w = (r, w') \<Longrightarrow> files_added (paths_of items loc) w w'"
proof (induction items arbitrary: recs w)
  case Nil
  then show ?case by (simp add: files_added_refl)
next
  case (Cons item items)
  obtain ft meta where item: "item = (ft, meta)" by (cases item)
  let ?lp = "join loc (filename meta)"
  let ?w0 = "w\<lparr>info_log := info_log w @ [downloading_message ft (url meta) ?lp]\<rparr>"
  let ?P = "paths_of (item # items) loc"
  have sub: "paths_of items loc \<subseteq> ?P" "{?lp} \<subseteq> ?P"
    by (auto simp: item paths_of_Cons)
  show ?case
  proof (cases "exists w ?lp")
    case True
    then have "fetch_files items loc dl (recs(ft \<mapsto> ?lp)) w = (r, w')"
      using Cons.prems by (simp add: item fetch_files_step)
    then have "files_added (paths_of items loc) w w'" by (rule Cons.IH)
    then show ?thesis using sub(1) by (rule files_added_mono)
  next
    case False
    show ?thesis
    proof (cases dl)
      case False
      then have "w' = w" using Cons.prems \<open>\<not> exists w ?lp\<close> by (simp add: item fetch_files_step)
      then show ?thesis by (simp add: files_added_refl)
    next
      case True
      obtain r1 w1 where r1: "fetch_remote meta loc False ?w0 = (r1, w1)"
        by (cases "fetch_remote meta loc False ?w0")
      have "\<not> exists ?w0 ?lp" using False by (simp add: exists_def)
      then have "files_added {?lp} ?w0 w1" using r1 by (intro fetch_remote_frame)
      then have f1: "files_added {?lp} w w1" by (rule files_added_log)
      show ?thesis
      proof (cases r1)
        case (Inl e)
        then have "w' = w1" using Cons.prems False True r1 by (simp add: item fetch_files_step)
        then show ?thesis using f1 sub(2) by (simp add: files_added_mono)
      next
        case (Inr x)
        then have "fetch_files items loc dl (recs(ft \<mapsto> ?lp)) w1 = (r, w')"
          using Cons.prems False True r1 by (simp add: item fetch_files_step)
        then have "files_added (paths_of items loc) w1 w'" by (rule Cons.IH)
        with f1 show ?thesis using sub(2) sub(1) by (rule files_added_trans)
      qed
    qed
  qed
qed

lemma fetch_files_present:
  "first_missing w loc items = None \<Longrightarrow>
     fetch_files items loc dl recs w = (Inr (assign_paths items loc recs), w)"
proof (induction items arbitrary: recs)
  case Nil
  then show ?case by simp
next
  case (Cons item items)
  obtain ft meta where item: "item = (ft, meta)" by (cases item)
  have e: "exists w (join loc (filename meta))" and r: "first_missing w loc items = None"
    using Cons.prems by (auto simp: first_missing_def item split: if_splits)
  have a: "assign_paths (item # items) loc recs =
           assign_paths items loc (recs(ft \<mapsto> join loc (filename meta)))"
    by (simp add: item)
  have "fetch_files (item # items) loc dl recs w =
        fetch_files items loc dl (recs(ft \<mapsto> join loc (filename meta))) w"
    using e by (simp add: item fetch_files_step)
  also have "\<dots> = (Inr (assign_paths items loc (recs(ft \<mapsto> join loc (filename meta)))), w)"
    by (rule Cons.IH [OF r])
  finally show ?case by (simp only: a)
qed

lemma fetch_files_disabled:
  "fetch_files items loc False recs w =
     (case first_missing w loc items of
        None \<Rightarrow> (Inr (assign_paths items loc recs), w)
      | Some item \<Rightarrow>
          (Inl (IOError (not_found_message (fst item) (join loc (filename (snd item))))), w))"
proof (induction items arbitrary: recs)
  case Nil
  then show ?case by (simp add: first_missing_def)
next
  case (Cons item items)
  obtain ft meta where item: "item = (ft, meta)" by (cases item)
  show ?case
  proof (cases "exists w (join loc (filename meta))")
    case True
    then have fm: "first_missing w loc (item # items) = first_missing w loc items"
      by (simp add: first_missing_def item)
    have a: "assign_paths (item # items) loc recs =
             assign_paths items loc (recs(ft \<mapsto> join loc (filename meta)))"
      by (simp add: item)
    have "fetch_files (item # items) loc False recs w =
          fetch_files items loc False (recs(ft \<mapsto> join loc (filename meta))) w"
      using True by (simp add: item fetch_files_step)
    then show ?thesis by (simp only: Cons.IH fm a)
  next
    case False
    then have fm: "first_missing w loc (item # items) = Some item"
      by (simp add: first_missing_def item)
    have "fetch_files (item # items) loc False recs w =
          (Inl (IOError (not_found_message ft (join loc (filename meta)))), w)"
      using False by (simp add: item fetch_files_step)
    then show ?thesis unfolding fm by (simp add: item)
  qed
qed

lemma fetch_files_Inr:
  "fetch_files items loc dl recs w = (Inr recs', w') \<Longrightarrow>
     recs' = assign_paths items loc recs \<and>
     (\<forall>item\<in>set items. filename (snd item) \<noteq> [] \<longrightarrow> exists w' (join loc (filename (snd item))))"
proof (induction items arbitrary: recs w)
  case Nil
  then show ?case by simp
next
  case (Cons item items)
  obtain ft meta where item: "item = (ft, meta)" by (cases item)
  let ?lp = "join loc (filename meta)"
  let ?w0 = "w\<lparr>info_log := info_log w @ [downloading_message ft (url meta) ?lp]\<rparr>"
  have a: "assign_paths (item # items) loc recs = assign_paths items loc (recs(ft \<mapsto> ?lp))"
    by (simp add: item)
  show ?case
  proof (cases "exists w ?lp")
    case True
    then have rest: "fetch_files items loc dl (recs(ft \<mapsto> ?lp)) w = (Inr recs', w')"
      using Cons.prems by (simp add: item fetch_files_step)
    have here: "filename meta \<noteq> [] \<longrightarrow> exists w' ?lp"
      using fetch_files_frame [OF rest] True files_added_exists by blast
    from Cons.IH [OF rest] have r: "recs' = assign_paths items loc (recs(ft \<mapsto> ?lp))"
      and ex: "\<forall>i\<in>set items. filename (snd i) \<noteq> [] \<longrightarrow> exists w' (join loc (filename (snd i)))"
      by blast+
    have "recs' = assign_paths (item # items) loc recs" by (simp only: a r)
    moreover have "\<forall>i\<in>set (item # items). filename (snd i) \<noteq> [] \<longrightarrow> exists w' (join loc (filename (snd i)))"
      using ex here by (simp add: item)
    ultimately show ?thesis by blast
  next
    case False
    obtain r1 w1 where r1: "fetch_remote meta loc False ?w0 = (r1, w1)"
      by (cases "fetch_remote meta loc False ?w0")
    have dl: dl using Cons.prems False by (auto simp: item fetch_files_step split: if_splits)
    have nl: "\<not> isl r1" using Cons.prems False dl r1
      by (auto simp: item fetch_files_step split: if_splits)
    then obtain x where x: "r1 = Inr x" by (cases r1) auto
    have rest: "fetch_files items loc dl (recs(ft \<mapsto> ?lp)) w1 = (Inr recs', w')"
      using Cons.prems False dl r1 x by (simp add: item fetch_files_step)
    have n0: "\<not> exists ?w0 ?lp" using False by (simp add: exists_def)
    have "fs w1 ?lp \<noteq> None" using fetch_remote_Inr [OF r1 [unfolded x] n0] by simp
    then have "filename meta \<noteq> [] \<Longrightarrow> exists w1 ?lp"
      by (simp add: exists_def join_nonempty)
    then have here: "filename meta \<noteq> [] \<longrightarrow> exists w' ?lp"
      using fetch_files_frame [OF rest] files_added_exists by blast
    from Cons.IH [OF rest] have r: "recs' = assign_paths items loc (recs(ft \<mapsto> ?lp))"
      and ex: "\<forall>i\<in>set items. filename (snd i) \<noteq> [] \<longrightarrow> exists w' (join loc (filename (snd i)))"
      by blast+
    have "recs' = assign_paths (item # items) loc recs" by (simp only: a r)
    moreover have "\<forall>i\<in>set (item # items). filename (snd i) \<noteq> [] \<longrightarrow> exists w' (join loc (filename (snd i)))"
      using ex here by (simp add: item)
    ultimately show ?thesis by blast
  qed
qed

lemma fetch_files_net_calls:
  "fetch_files items loc dl recs w = (r, w') \<Longrightarrow>
     \<exists>us. net_calls w' = net_calls w @ us \<and>
          set us \<subseteq> (url \<circ> snd) ` {item \<in> set items. \<not> exists w (join loc (filename (snd item)))}"
proof (induction items arbitrary: recs w)
  case Nil
  then show ?case by simp
next
  case (Cons item items)
  obtain ft meta where item: "item = (ft, meta)" by (cases item)
  let ?lp = "join loc (filename meta)"
  let ?w0 = "w\<lparr>info_log := info_log w @ [downloading_message ft (url meta) ?lp]\<rparr>"
  show ?case
  proof (cases "exists w ?lp")
    case True
    then have rest: "fetch_files items loc dl (recs(ft \<mapsto> ?lp)) w = (r, w')"
      using Cons.prems by (simp add: item fetch_files_step)
    from Cons.IH [OF rest] show ?thesis by auto
  next
    case False
    show ?thesis
    proof (cases dl)
      case False
      then have "w' = w" using Cons.prems \<open>\<not> exists w ?lp\<close> by (simp add: item fetch_files_step)
      then show ?thesis by simp
    next
      case True
      obtain r1 w1 where r1: "fetch_remote meta loc False ?w0 = (r1, w1)"
        by (cases "fetch_remote meta loc False ?w0")
      have n1: "net_calls w1 = net_calls w \<or> net_calls w1 = net_calls w @ [url meta]"
        using r1 by (auto simp: fetch_remote_def Let_def split: if_splits option.splits)
      have n0: "\<not> exists ?w0 ?lp" using False by (simp add: exists_def)
      have f1: "files_added {?lp} w w1"
        using fetch_remote_frame [OF r1 n0] by (rule files_added_log)
      have here: "url meta \<in> (url \<circ> snd) ` {i \<in> set (item # items). \<not> exists w (join loc (filename (snd i)))}"
        by (rule image_eqI [where x = "(ft, meta)"]) (use False in \<open>simp_all add: item\<close>)
      show ?thesis
      proof (cases r1)
        case (Inl e)
        then have "w' = w1" using Cons.prems False True r1 by (simp add: item fetch_files_step)
        then show ?thesis using n1 here
          by (elim disjE) (rule exI [of _ "[]"], simp, rule exI [of _ "[url meta]"], simp)
      next
        case (Inr x)
        then have rest: "fetch_files items loc dl (recs(ft \<mapsto> ?lp)) w1 = (r, w')"
          using Cons.prems False True r1 by (simp add: item fetch_files_step)
        from Cons.IH [OF rest] obtain us where us: "net_calls w' = net_calls w1 @ us"
          "set us \<subseteq> (url \<circ> snd) ` {i \<in> set items. \<not> exists w1 (join loc (filename (snd i)))}"
          by blast
        have mono: "\<not> exists w1 p \<Longrightarrow> \<not> exists w p" for p
          using f1 files_added_exists by blast
        have sub: "set us \<subseteq> (url \<circ> snd) ` {i \<in> set (item # items). \<not> exists w (join loc (filename (snd i)))}"
          using us(2) mono by auto
        from n1 show ?thesis
        proof
          assume "net_calls w1 = net_calls w"
          then show ?thesis using us(1) sub by auto
        next
          assume "net_calls w1 = net_calls w @ [url meta]"
          then have "net_calls w' = net_calls w @ (url meta # us)" using us(1) by simp
          moreover have "set (url meta # us) \<subseteq> (url \<circ> snd) ` {i \<in> set (item # items). \<not> exists w (join loc (filename (snd i)))}"
            using sub here by simp
          ultimately show ?thesis by blast
        qed
      qed
    qed
  qed
qed

lemma mkdir_error: "mkdir name w = (Inl e, w') \<Longrightarrow> is_IOError e \<and> w' = w"
  by (auto simp: mkdir_def Let_def split: if_splits option.splits entry.splits)

lemma makedirs_error: "makedirs name w = (Inl e, w') \<Longrightarrow> is_IOError e"
proof (induction name w arbitrary: e w' rule: makedirs.induct)
  case (1 name w)
  let ?h = "fst (head_tail name)" and ?t = "snd (head_tail name)"
  show ?case
  proof (cases "?h \<noteq> [] \<and> ?t \<noteq> [] \<and> \<not> exists w ?h")
    case False
    then have "makedirs name w = mkdir name w"
      using makedirs_unfold [of name w] by presburger
    then have "mkdir name w = (Inl e, w')" using "1.prems" by simp
    then show ?thesis using mkdir_error by blast
  next
    case True
    obtain r1 w1 where r1: "makedirs ?h w = (r1, w1)" by (cases "makedirs ?h w")
    have "makedirs name w = (if fatal (fst (makedirs ?h w)) then makedirs ?h w
            else if ?t = ''.'' then (Inr (), snd (makedirs ?h w))
            else mkdir name (snd (makedirs ?h w)))"
      using True makedirs_unfold [of name w] by presburger
    then have "makedirs name w = (if fatal r1 then (r1, w1)
            else if ?t = ''.'' then (Inr (), w1) else mkdir name w1)"
      by (simp only: r1 fst_conv snd_conv)
    then have "(Inl e, w') = (r1, w1) \<or> mkdir name w1 = (Inl e, w')"
      using "1.prems" by (simp split: if_splits)
    then show ?thesis
    proof
      assume "(Inl e, w') = (r1, w1)"
      then have "makedirs ?h w = (Inl e, w1)" using r1 by simp
      then show ?thesis using "1.IH" [OF True] by blast
    next
      assume "mkdir name w1 = (Inl e, w')"
      then show ?thesis using mkdir_error by blast
    qed
  qed
qed

lemma makedirs_creates:
  assumes "makedirs name w = (Inr u, w')" "snd (head_tail name) \<noteq> ''.''"
  shows "name \<noteq> [] \<and> fs w' name = Some Directory
         \<and> (fst (head_tail name) = [] \<or> fs w' (fst (head_tail name)) = Some Directory)"
proof -
  let ?h = "fst (head_tail name)" and ?t = "snd (head_tail name)"
  have "\<exists>w1. mkdir name w1 = (Inr u, w')"
  proof (cases "?h \<noteq> [] \<and> ?t \<noteq> [] \<and> \<not> exists w ?h")
    case False
    then have "makedirs name w = mkdir name w"
      using makedirs_unfold [of name w] by presburger
    then show ?thesis using assms(1) by auto
  next
    case True
    have "makedirs name w = (if fatal (fst (makedirs ?h w)) then makedirs ?h w
            else mkdir name (snd (makedirs ?h w)))"
      using True assms(2) makedirs_unfold [of name w] by presburger
    moreover have "fatal (fst (makedirs ?h w)) \<Longrightarrow> makedirs ?h w \<noteq> (Inr u, w')"
      by (auto simp: fatal_def)
    ultimately show ?thesis using assms(1) by (metis (full_types))
  qed
  then obtain w1 where "mkdir name w1 = (Inr u, w')" by blast
  from mkdir_Inr [OF this] show ?thesis by auto
qed

lemma ensure_exists:
  "exists w loc \<Longrightarrow> ensure_dataset_dir loc w = (Inr (), w)"
  by (simp add: ensure_dataset_dir_def)

lemma ensure_dirs_added:
  "ensure_dataset_dir loc w = (r, w') \<Longrightarrow> dirs_added (length loc) w w'"
  by (auto simp: ensure_dataset_dir_def dirs_added_refl makedirs_dirs_added split: if_splits)

lemma ensure_error:
  "ensure_dataset_dir loc w = (Inl e, w') \<Longrightarrow> is_IOError e \<and> \<not> exists w loc"
  by (auto simp: ensure_dataset_dir_def makedirs_error split: if_splits)

lemma dirs_added_exists: "dirs_added n w w' \<Longrightarrow> exists w p \<Longrightarrow> exists w' p"
  unfolding dirs_added_def exists_def by metis

lemma dirs_added_longer:
  "dirs_added n w w' \<Longrightarrow> n < length p \<Longrightarrow> fs w' p = fs w p"
  unfolding dirs_added_def by (metis not_less)

lemma dirs_added_env:
  assumes "dirs_added n w w'"
  shows "environ_data_home w' = environ_data_home w" "default_data_home w' = default_data_home w"
    "module_path w' = module_path w" "transfer w' = transfer w"
    "net_calls w' = net_calls w" "info_log w' = info_log w"
proof -
  obtain f where "w' = w\<lparr>fs := f\<rparr>" using assms unfolding dirs_added_def by blast
  then show "environ_data_home w' = environ_data_home w" "default_data_home w' = default_data_home w"
    "module_path w' = module_path w" "transfer w' = transfer w"
    "net_calls w' = net_calls w" "info_log w' = info_log w"
    by simp_all
qed

lemma files_added_env:
  assumes "files_added P w w'"
  shows "environ_data_home w' = environ_data_home w" "default_data_home w' = default_data_home w"
    "module_path w' = module_path w" "transfer w' = transfer w"
proof -
  obtain f n l where "w' = w\<lparr>fs := f, net_calls := n, info_log := l\<rparr>"
    using assms unfolding files_added_def by blast
  then show "environ_data_home w' = environ_data_home w" "default_data_home w' = default_data_home w"
    "module_path w' = module_path w" "transfer w' = transfer w"
    by simp_all
qed

lemma simple_NAME: "simple (NAME m)"
  by (cases m) (simp_all add: simple_def sep_def)

lemma simple_filename: "item \<in> set (ARCHIVE m) \<Longrightarrow> simple (filename (snd item))"
  by (cases m) (auto simp: simple_def sep_def)

lemma simple_hd: "simple n \<Longrightarrow> n \<noteq> [] \<and> hd n \<noteq> sep"
  by (cases n) (auto simp: simple_def)

lemma distinct_roles: "distinct (map fst (ARCHIVE m))"
  by (cases m) simp_all

lemma distinct_urls: "distinct (map (url \<circ> snd) (ARCHIVE m))"
  by (cases m) simp_all

lemma roles_not_DESCR: "item \<in> set (ARCHIVE m) \<Longrightarrow> fst item \<noteq> ''DESCR''"
  by (cases m) auto

lemma fetch_unfold:
  "fetch m dh dl w =
     (case ensure_dataset_dir (data_location m dh w) w of
        (Inl e, w1) \<Rightarrow> (Inl e, w1)
      | (Inr _, w1) \<Rightarrow>
          (case fetch_files (ARCHIVE m) (data_location m dh w) dl Map.empty w1 of
             (Inl e, w2) \<Rightarrow> (Inl e, w2)
           | (Inr records, w2) \<Rightarrow>
               (case read_text w2 (descr_path w2 (DESCRIPTION m)) of
                  Inl e \<Rightarrow> (Inl e, w2)
                | Inr text \<Rightarrow> (Inr (records(''DESCR'' \<mapsto> text)), w2))))"
  by (cases m) (simp_all only: fetch.simps fetch_adk_equilibrium_def fetch_ifabp_water_def
      data_location_def Let_def)

lemma fetch_cases [case_names dir_error file_error descr_error success]:
  fixes m dh dl w
  defines "loc \<equiv> data_location m dh w"
  obtains
    e w1 where "ensure_dataset_dir loc w = (Inl e, w1)" "fetch m dh dl w = (Inl e, w1)"
  | w1 e w2 where "ensure_dataset_dir loc w = (Inr (), w1)"
      "fetch_files (ARCHIVE m) loc dl Map.empty w1 = (Inl e, w2)"
      "fetch m dh dl w = (Inl e, w2)"
  | w1 recs w2 e where "ensure_dataset_dir loc w = (Inr (), w1)"
      "fetch_files (ARCHIVE m) loc dl Map.empty w1 = (Inr recs, w2)"
      "read_text w2 (descr_path w2 (DESCRIPTION m)) = Inl e"
      "fetch m dh dl w = (Inl e, w2)"
  | w1 recs w2 d where "ensure_dataset_dir loc w = (Inr (), w1)"
      "fetch_files (ARCHIVE m) loc dl Map.empty w1 = (Inr recs, w2)"
      "read_text w2 (descr_path w2 (DESCRIPTION m)) = Inr d"
      "fetch m dh dl w = (Inr (recs(''DESCR'' \<mapsto> d)), w2)"
proof -
  obtain r1 w1 where r1: "ensure_dataset_dir loc w = (r1, w1)"
    by (cases "ensure_dataset_dir loc w")
  show thesis
  proof (cases r1)
    case (Inl e)
    then have "fetch m dh dl w = (Inl e, w1)"
      using r1 by (simp add: fetch_unfold loc_def)
    then show ?thesis using that(1) r1 Inl by blast
  next
    case (Inr u)
    then have e1: "ensure_dataset_dir loc w = (Inr (), w1)" using r1 by simp
    obtain r2 w2 where r2: "fetch_files (ARCHIVE m) loc dl Map.empty w1 = (r2, w2)"
      by (cases "fetch_files (ARCHIVE m) loc dl Map.empty w1")
    show ?thesis
    proof (cases r2)
      case (Inl e)
      then have "fetch m dh dl w = (Inl e, w2)"
        using e1 r2 by (simp add: fetch_unfold loc_def [symmetric])
      then show ?thesis using that(2) e1 r2 Inl by blast
    next
      case (Inr recs)
      note recs = this
      show ?thesis
      proof (cases "read_text w2 (descr_path w2 (DESCRIPTION m))")
        case (Inl e)
        then have "fetch m dh dl w = (Inl e, w2)"
          using e1 r2 recs by (simp add: fetch_unfold loc_def [symmetric])
        then show ?thesis using that(3) e1 r2 recs Inl by blast
      next
        case (Inr d)
        then have "fetch m dh dl w = (Inr (recs(''DESCR'' \<mapsto> d)), w2)"
          using e1 r2 recs by (simp add: fetch_unfold loc_def [symmetric])
        then show ?thesis using that(4) e1 r2 recs Inr by blast
      qed
    qed
  qed
qed

lemma fetch_success:
  assumes "fetch m dh dl w = (Inr b, w')"
  obtains w1 recs d where
    "ensure_dataset_dir (data_location m dh w) w = (Inr (), w1)"
    "fetch_files (ARCHIVE m) (data_location m dh w) dl Map.empty w1 = (Inr recs, w')"
    "read_text w' (descr_path w' (DESCRIPTION m)) = Inr d"
    "b = recs(''DESCR'' \<mapsto> d)"
proof (cases rule: fetch_cases [of m dh w dl])
  case (success w1 recs w2 d)
  then show ?thesis using assms that by simp
qed (use assms in simp_all)

lemma fetch_world:
  obtains w1 where
    "dirs_added (length (data_location m dh w)) w w1"
    "files_added (paths_of (ARCHIVE m) (data_location m dh w)) w1 (snd (fetch m dh dl w))"
    "snd (ensure_dataset_dir (data_location m dh w) w) = w1"
proof (cases rule: fetch_cases [of m dh w dl])
  case (dir_error e w1)
  have "dirs_added (length (data_location m dh w)) w w1"
    using dir_error(1) by (rule ensure_dirs_added)
  moreover have "files_added (paths_of (ARCHIVE m) (data_location m dh w)) w1 (snd (fetch m dh dl w))"
    unfolding dir_error(2) snd_conv by (rule files_added_refl)
  moreover have "snd (ensure_dataset_dir (data_location m dh w) w) = w1"
    unfolding dir_error(1) by simp
  ultimately show ?thesis by (rule that)
next
  case (file_error w1 e w2)
  have "dirs_added (length (data_location m dh w)) w w1"
    using file_error(1) by (rule ensure_dirs_added)
  moreover have "files_added (paths_of (ARCHIVE m) (data_location m dh w)) w1 (snd (fetch m dh dl w))"
    unfolding file_error(3) snd_conv using file_error(2) by (rule fetch_files_frame)
  moreover have "snd (ensure_dataset_dir (data_location m dh w) w) = w1"
    unfolding file_error(1) by simp
  ultimately show ?thesis by (rule that)
next
  case (descr_error w1 recs w2 e)
  have "dirs_added (length (data_location m dh w)) w w1"
    using descr_error(1) by (rule ensure_dirs_added)
  moreover have "files_added (paths_of (ARCHIVE m) (data_location m dh w)) w1 (snd (fetch m dh dl w))"
    unfolding descr_error(4) snd_conv using descr_error(2) by (rule fetch_files_frame)
  moreover have "snd (ensure_dataset_dir (data_location m dh w) w) = w1"
    unfolding descr_error(1) by simp
  ultimately show ?thesis by (rule that)
next
  case (success w1 recs w2 d)
  have "dirs_added (length (data_location m dh w)) w w1"
    using success(1) by (rule ensure_dirs_added)
  moreover have "files_added (paths_of (ARCHIVE m) (data_location m dh w)) w1 (snd (fetch m dh dl w))"
    unfolding success(4) snd_conv using success(2) by (rule fetch_files_frame)
  moreover have "snd (ensure_dataset_dir (data_location m dh w) w) = w1"
    unfolding success(1) by simp
  ultimately show ?thesis by (rule that)
qed

lemma data_location_env:
  "environ_data_home w' = environ_data_home w \<Longrightarrow> default_data_home w' = default_data_home w \<Longrightarrow>
     data_location m dh w' = data_location m dh w"
  by (simp add: data_location_def get_data_home_def split: option.splits)


lemma location_tail:
  "snd (head_tail (data_location m dh w)) = NAME m"
  unfolding data_location_def using simple_NAME [of m]
  by (simp add: head_tail_join(1) simple_def)

lemma NAME_not_dot: "NAME m \<noteq> ''.''"
  by (cases m) simp_all

lemma ensure_creates:
  assumes "ensure_dataset_dir (data_location m dh w) w = (Inr u, w1)"
  shows "exists w1 (data_location m dh w)"
proof (cases "exists w (data_location m dh w)")
  case True
  then show ?thesis using assms by (simp add: ensure_dataset_dir_def)
next
  case False
  then have "makedirs (data_location m dh w) w = (Inr u, w1)"
    using assms by (simp add: ensure_dataset_dir_def)
  then show ?thesis
    using makedirs_creates [of "data_location m dh w" w u w1]
    by (simp add: location_tail NAME_not_dot exists_def)
qed

lemma first_missing_None:
  "first_missing w loc items = None \<longleftrightarrow>
     (\<forall>item\<in>set items. exists w (join loc (filename (snd item))))"
  by (auto simp: first_missing_def find_None_iff)

lemma local_path_longer:
  assumes "item \<in> set (ARCHIVE m)"
  shows "length loc < length (join loc (filename (snd item)))"
  using simple_hd [OF simple_filename [OF assms]] by (simp add: join_longer)

text \<open>The equations that evaluate a run on a concrete state.\<close>

lemmas run_defs =
  fetch.simps fetch_adk_equilibrium_def fetch_ifabp_water_def get_data_home_def join_def sep_def
  ensure_dataset_dir_def exists_def makedirs.simps head_tail_def path_split_def rstrip_sep_def
  mkdir_def fetch_files_Cons fetch_remote_def verified_def read_text_def descr_path_def
  not_found_message_def downloading_message_def Let_def

lemma fresh_run:
  "fetch Adk_equilibrium (Some ''/data'') True fresh_world = (Inr adk_bundle, fetched_world)"
  by (simp add: run_defs fresh_world_def good_host_def adk_descr_def adk_bundle_def fetched_world_def)

lemma assign_paths_other:
  "role \<notin> fst ` set items \<Longrightarrow> assign_paths items loc recs role = recs role"
proof (induction items arbitrary: recs)
  case Nil
  then show ?case by simp
next
  case (Cons item items)
  obtain ft meta where item: "item = (ft, meta)" by (cases item)
  have "role \<noteq> ft" "role \<notin> fst ` set items" using Cons.prems by (auto simp: item)
  then have "assign_paths items loc (recs(ft \<mapsto> join loc (filename meta))) role
             = (recs(ft \<mapsto> join loc (filename meta))) role"
    using Cons.IH by blast
  then show ?case using \<open>role \<noteq> ft\<close> by (simp add: item)
qed

lemma assign_paths_lookup:
  "distinct (map fst items) \<Longrightarrow> (role, meta) \<in> set items \<Longrightarrow>
     assign_paths items loc recs role = Some (join loc (filename meta))"
proof (induction items arbitrary: recs)
  case Nil
  then show ?case by simp
next
  case (Cons item items)
  obtain ft m' where item: "item = (ft, m')" by (cases item)
  show ?case
  proof (cases "(role, meta) = item")
    case True
    then have "role \<notin> fst ` set items" using Cons.prems(1) by (auto simp: item)
    then have "assign_paths items loc (recs(ft \<mapsto> join loc (filename m'))) role
               = (recs(ft \<mapsto> join loc (filename m'))) role"
      by (rule assign_paths_other)
    then show ?thesis using True by (simp add: item)
  next
    case False
    then have "(role, meta) \<in> set items" "distinct (map fst items)"
      using Cons.prems by auto
    then have "assign_paths items loc (recs(ft \<mapsto> join loc (filename m'))) role
               = Some (join loc (filename meta))"
      using Cons.IH by blast
    then show ?thesis by (simp add: item)
  qed
qed

lemma dom_assign_paths:
  "dom (assign_paths items loc recs) = dom recs \<union> fst ` set items"
proof (induction items arbitrary: recs)
  case Nil
  then show ?case by simp
next
  case (Cons item items)
  obtain ft meta where item: "item = (ft, meta)" by (cases item)
  have "dom (assign_paths items loc (recs(ft \<mapsto> join loc (filename meta))))
        = dom (recs(ft \<mapsto> join loc (filename meta))) \<union> fst ` set items"
    by (rule Cons.IH)
  then show ?case by (auto simp: item)
qed

lemma join_layout:
  assumes "home \<noteq> []" "last home \<noteq> sep" "simple n" "simple f"
  shows "join (join home n) f = home @ ''/'' @ n @ ''/'' @ f"
proof -
  have n: "n \<noteq> []" "hd n \<noteq> sep" and f: "f \<noteq> []" "hd f \<noteq> sep"
    using simple_hd assms(3,4) by blast+
  have 1: "join home n = home @ sep # n" using assms(1,2) n by (simp add: join_def)
  have "last (home @ sep # n) = last n" using n by simp
  moreover have "last n \<noteq> sep" using assms(3) by (metis last_in_set simple_def)
  ultimately have "join (home @ sep # n) f = (home @ sep # n) @ sep # f"
    using f by (simp add: join_def)
  then show ?thesis unfolding 1 by (simp add: sep_def)
qed




lemma files_added_at:
  assumes "files_added P w w'"
  shows "fs w' p = fs w p \<or> (p \<in> P \<and> \<not> exists w p \<and> (\<exists>d. fs w' p = Some (RegularFile d)))"
proof -
  from assms have "\<forall>p. fs w' p = fs w p \<or>
      (p \<in> P \<and> \<not> exists w p \<and> (\<exists>d. fs w' p = Some (RegularFile d)))"
    unfolding files_added_def by (rule conjunct2)
  then show ?thesis by (rule spec)
qed

lemma dirs_added_at:
  assumes "dirs_added n w w'"
  shows "fs w' p = fs w p \<or>
    (fs w p = None \<and> fs w' p = Some Directory \<and> p \<noteq> [] \<and> length p \<le> n)"
proof -
  from assms have "\<forall>p. fs w' p = fs w p \<or>
      (fs w p = None \<and> fs w' p = Some Directory \<and> p \<noteq> [] \<and> length p \<le> n)"
    unfolding dirs_added_def by (rule conjunct2)
  then show ?thesis by (rule spec)
qed


lemma files_added_kept:
  "files_added P w w' \<Longrightarrow> exists w p \<Longrightarrow> fs w' p = fs w p"
  using files_added_at [of P w w' p] by simp

lemma dirs_added_kept:
  "dirs_added n w w' \<Longrightarrow> exists w p \<Longrightarrow> fs w' p = fs w p"
  using dirs_added_at [of n w w' p] by (auto simp: exists_def)


lemma local_path_eq: "local_path m dh w meta = join (data_location m dh w) (filename meta)"
  by (simp add: local_path_def)


lemma first_missing_Some:
  "first_missing w loc items = Some item \<Longrightarrow>
     item \<in> set items \<and> \<not> exists w (join loc (filename (snd item)))"
  unfolding first_missing_def find_Some_iff by (metis nth_mem)

lemma first_missing_ensure:
  assumes "dirs_added (length loc) w w1"
  shows "first_missing w1 loc (ARCHIVE m) = first_missing w loc (ARCHIVE m)"
  unfolding first_missing_def
proof (rule find_cong [OF refl])
  fix item assume "item \<in> set (ARCHIVE m)"
  then have "length loc < length (join loc (filename (snd item)))" by (rule local_path_longer)
  with assms have "fs w1 (join loc (filename (snd item))) = fs w (join loc (filename (snd item)))"
    by (rule dirs_added_longer)
  then show "(\<not> exists w1 (join loc (filename (snd item)))) = (\<not> exists w (join loc (filename (snd item))))"
    by (simp add: exists_def)
qed

lemma fetch_disabled:
  assumes "ensure_dataset_dir (data_location m dh w) w = (Inr (), w1)"
  shows "fetch m dh False w =
     (case first_missing w (data_location m dh w) (ARCHIVE m) of
        Some item \<Rightarrow>
          (Inl (IOError (not_found_message (fst item)
             (join (data_location m dh w) (filename (snd item))))), w1)
      | None \<Rightarrow>
          (case read_text w1 (descr_path w1 (DESCRIPTION m)) of
             Inl e \<Rightarrow> (Inl e, w1)
           | Inr d \<Rightarrow>
               (Inr ((assign_paths (ARCHIVE m) (data_location m dh w) Map.empty)(''DESCR'' \<mapsto> d)),
                w1)))"
proof -
  let ?loc = "data_location m dh w"
  have da: "dirs_added (length ?loc) w w1" using assms by (rule ensure_dirs_added)
  have fm: "first_missing w1 ?loc (ARCHIVE m) = first_missing w ?loc (ARCHIVE m)"
    using da by (rule first_missing_ensure)
  show ?thesis
  proof (cases "first_missing w ?loc (ARCHIVE m)")
    case None
    then have "fetch_files (ARCHIVE m) ?loc False Map.empty w1
               = (Inr (assign_paths (ARCHIVE m) ?loc Map.empty), w1)"
      unfolding fetch_files_disabled fm by simp
    then show ?thesis
      unfolding fetch_unfold [of m dh False w] assms None by (simp split: sum.splits)
  next
    case (Some item)
    then have "fetch_files (ARCHIVE m) ?loc False Map.empty w1
               = (Inl (IOError (not_found_message (fst item) (join ?loc (filename (snd item))))), w1)"
      unfolding fetch_files_disabled fm by simp
    then show ?thesis
      unfolding fetch_unfold [of m dh False w] assms Some by simp
  qed
qed

lemma fetch_dir_error:
  assumes "ensure_dataset_dir (data_location m dh w) w = (Inl e, w1)"
  shows "fetch m dh dl w = (Inl e, w1)"
  unfolding fetch_unfold [of m dh dl w] assms by simp

lemma fetch_disabled_state:
  "snd (fetch m dh False w) = snd (ensure_dataset_dir (data_location m dh w) w)"
proof -
  let ?loc = "data_location m dh w"
  obtain r1 w1 where r1: "ensure_dataset_dir ?loc w = (r1, w1)"
    by (cases "ensure_dataset_dir ?loc w")
  show ?thesis
  proof (cases r1)
    case (Inl e)
    then show ?thesis using fetch_dir_error [of m dh w e w1 False] r1 by simp
  next
    case (Inr u)
    then have "ensure_dataset_dir ?loc w = (Inr (), w1)" using r1 by simp
    from fetch_disabled [OF this] have "snd (fetch m dh False w) = w1"
      by (simp split: option.splits sum.splits)
    then show ?thesis using r1 by simp
  qed
qed

lemma fetch_disabled_net_calls:
  "net_calls (snd (fetch m dh False w)) = net_calls w"
  "info_log (snd (fetch m dh False w)) = info_log w"
proof -
  obtain r1 w1 where r1: "ensure_dataset_dir (data_location m dh w) w = (r1, w1)"
    by (cases "ensure_dataset_dir (data_location m dh w) w")
  have w1: "snd (fetch m dh False w) = w1" unfolding fetch_disabled_state r1 by simp
  show "net_calls (snd (fetch m dh False w)) = net_calls w"
    unfolding w1 using dirs_added_env(5) [OF ensure_dirs_added [OF r1]] .
  show "info_log (snd (fetch m dh False w)) = info_log w"
    unfolding w1 using dirs_added_env(6) [OF ensure_dirs_added [OF r1]] .
qed

lemma fresh_run_disabled:
  "fetch Adk_equilibrium (Some ''/data'') False fresh_world =
     (Inl (IOError
        ''Data topology=/data/adk_equilibrium/adk4AKE.psf not found and `download_if_missing` is False''),
      fresh_world\<lparr>fs := (fs fresh_world)(''/data/adk_equilibrium'' \<mapsto> Directory)\<rparr>)"
  by (simp add: run_defs fresh_world_def good_host_def adk_descr_def)

lemma partial_run_disabled:
  "fetch Adk_equilibrium (Some ''/data'') False partial_world =
     (Inl (IOError
        ''Data trajectory=/data/adk_equilibrium/1ake_007-nowater-core-dt240ps.dcd not found and `download_if_missing` is False''),
      partial_world)"
  by (simp add: run_defs partial_world_def fresh_world_def good_host_def adk_descr_def)

lemma fetch_files_first_missing_download:
  assumes "first_missing w loc items = Some item" and dl
    and "fetch_remote (snd item) loc False
           (w\<lparr>info_log := info_log w @
              [downloading_message (fst item) (url (snd item)) (join loc (filename (snd item)))]\<rparr>)
         = (Inl e, w')"
  shows "fetch_files items loc dl recs w = (Inl e, w')"
  using assms(1)
proof (induction items arbitrary: recs)
  case Nil
  then show ?case by (simp add: first_missing_def)
next
  case (Cons it items)
  obtain ft meta where it: "it = (ft, meta)" by (cases it)
  show ?case
  proof (cases "exists w (join loc (filename meta))")
    case True
    then have "first_missing w loc items = Some item"
      using Cons.prems by (simp add: first_missing_def it)
    then have "fetch_files items loc dl (recs(ft \<mapsto> join loc (filename meta))) w = (Inl e, w')"
      by (rule Cons.IH)
    then show ?thesis using True by (simp add: it fetch_files_step)
  next
    case False
    then have "item = (ft, meta)"
      using Cons.prems by (simp add: first_missing_def it)
    then show ?thesis using False assms(2,3) by (simp add: it fetch_files_step)
  qed
qed


lemma fetch_remote_error:
  "fetch_remote meta dir force w = (Inl e, w') \<Longrightarrow>
     download_error meta (join dir (filename meta)) e"
  by (auto simp: fetch_remote_def download_error_def Let_def split: if_splits option.splits)

lemma fetch_files_Inl:
  "fetch_files items loc dl recs w = (Inl e, w') \<Longrightarrow>
     \<exists>item\<in>set items. \<not> exists w (join loc (filename (snd item))) \<and>
       ((\<not> dl \<and> e = IOError (not_found_message (fst item) (join loc (filename (snd item)))))
        \<or> (dl \<and> download_error (snd item) (join loc (filename (snd item))) e))"
proof (induction items arbitrary: recs w)
  case Nil
  then show ?case by simp
next
  case (Cons item items)
  obtain ft meta where item: "item = (ft, meta)" by (cases item)
  let ?lp = "join loc (filename meta)"
  let ?w0 = "w\<lparr>info_log := info_log w @ [downloading_message ft (url meta) ?lp]\<rparr>"
  let ?Q = "\<lambda>w i. \<not> exists w (join loc (filename (snd i))) \<and>
       ((\<not> dl \<and> e = IOError (not_found_message (fst i) (join loc (filename (snd i)))))
        \<or> (dl \<and> download_error (snd i) (join loc (filename (snd i))) e))"
  show ?case
  proof (cases "exists w ?lp")
    case True
    then have rest: "fetch_files items loc dl (recs(ft \<mapsto> ?lp)) w = (Inl e, w')"
      using Cons.prems by (simp add: item fetch_files_step)
    from Cons.IH [OF rest] obtain i where "i \<in> set items" "?Q w i" by blast
    then show ?thesis by (intro bexI [of _ i]) simp_all
  next
    case False
    show ?thesis
    proof (cases dl)
      case False
      then have "e = IOError (not_found_message ft ?lp)"
        using Cons.prems \<open>\<not> exists w ?lp\<close> by (simp add: item fetch_files_step)
      then have "?Q w item" using False \<open>\<not> exists w ?lp\<close> by (simp add: item)
      then show ?thesis by (intro bexI [of _ item]) simp_all
    next
      case True
      obtain r1 w1 where r1: "fetch_remote meta loc False ?w0 = (r1, w1)"
        by (cases "fetch_remote meta loc False ?w0")
      have n0: "\<not> exists ?w0 ?lp" using False by (simp add: exists_def)
      have f1: "files_added {?lp} w w1"
        using fetch_remote_frame [OF r1 n0] by (rule files_added_log)
      show ?thesis
      proof (cases r1)
        case (Inl e1)
        then have "e = e1" using Cons.prems False True r1 by (simp add: item fetch_files_step)
        then have "download_error meta ?lp e" using fetch_remote_error r1 Inl by blast
        then have "?Q w item" using True False by (simp add: item)
        then show ?thesis by (intro bexI [of _ item]) simp_all
      next
        case (Inr x)
        then have rest: "fetch_files items loc dl (recs(ft \<mapsto> ?lp)) w1 = (Inl e, w')"
          using Cons.prems False True r1 by (simp add: item fetch_files_step)
        from Cons.IH [OF rest] obtain i where i: "i \<in> set items" "?Q w1 i" by blast
        have "\<not> exists w (join loc (filename (snd i)))"
          using i(2) f1 files_added_exists by blast
        then have "?Q w i" using i(2) by simp
        then show ?thesis using i(1) by (intro bexI [of _ i]) simp_all
      qed
    qed
  qed
qed

lemma mkdir_error_kind:
  "mkdir name w = (Inl e, w') \<Longrightarrow>
     e = FileExistsError name \<or> e = FileNotFoundError name \<or> e = NotADirectoryError name"
  by (auto simp: mkdir_def Let_def split: if_splits option.splits entry.splits)

lemma makedirs_error_mkdir:
  "makedirs name w = (Inl e, w') \<Longrightarrow> \<exists>n w0 w0'. mkdir n w0 = (Inl e, w0')"
proof (induction name w arbitrary: e w' rule: makedirs.induct)
  case (1 name w)
  let ?h = "fst (head_tail name)" and ?t = "snd (head_tail name)"
  show ?case
  proof (cases "?h \<noteq> [] \<and> ?t \<noteq> [] \<and> \<not> exists w ?h")
    case False
    then have "makedirs name w = mkdir name w"
      using makedirs_unfold [of name w] by presburger
    then have "mkdir name w = (Inl e, w')" using "1.prems" by simp
    then show ?thesis by blast
  next
    case True
    obtain r1 w1 where r1: "makedirs ?h w = (r1, w1)" by (cases "makedirs ?h w")
    have "makedirs name w = (if fatal (fst (makedirs ?h w)) then makedirs ?h w
            else if ?t = ''.'' then (Inr (), snd (makedirs ?h w))
            else mkdir name (snd (makedirs ?h w)))"
      using True makedirs_unfold [of name w] by presburger
    then have "makedirs name w = (if fatal r1 then (r1, w1)
            else if ?t = ''.'' then (Inr (), w1) else mkdir name w1)"
      by (simp only: r1 fst_conv snd_conv)
    then have "(Inl e, w') = (r1, w1) \<or> mkdir name w1 = (Inl e, w')"
      using "1.prems" by (simp split: if_splits)
    then show ?thesis
    proof
      assume "(Inl e, w') = (r1, w1)"
      then have "makedirs ?h w = (Inl e, w1)" using r1 by simp
      then show ?thesis using "1.IH" [OF True] by blast
    next
      assume "mkdir name w1 = (Inl e, w')"
      then show ?thesis by blast
    qed
  qed
qed

lemma ensure_os_error: "ensure_dataset_dir loc w = (Inl e, w') \<Longrightarrow> os_error e"
proof -
  assume "ensure_dataset_dir loc w = (Inl e, w')"
  then have "makedirs loc w = (Inl e, w')"
    by (auto simp: ensure_dataset_dir_def split: if_splits)
  then obtain n w0 w0' where "mkdir n w0 = (Inl e, w0')"
    using makedirs_error_mkdir by blast
  from mkdir_error_kind [OF this] show ?thesis by auto
qed

lemma read_text_os_error: "read_text w p = Inl e \<Longrightarrow> os_error e"
  by (auto simp: read_text_def split: option.splits entry.splits)

lemma fetch_Inl:
  assumes "fst (fetch m dh dl w) = Inl e"
  shows "os_error e \<or>
     (\<exists>item\<in>set (ARCHIVE m). \<not> exists w (local_path m dh w (snd item)) \<and>
        ((\<not> dl \<and> e = IOError (not_found_message (fst item) (local_path m dh w (snd item))))
         \<or> (dl \<and> download_error (snd item) (local_path m dh w (snd item)) e)))"
proof (cases rule: fetch_cases [of m dh w dl])
  case (dir_error e1 w1)
  then have "os_error e" using assms ensure_os_error by auto
  then show ?thesis by blast
next
  case (file_error w1 e1 w2)
  then have f: "fetch_files (ARCHIVE m) (data_location m dh w) dl Map.empty w1 = (Inl e, w2)"
    using assms by simp
  have da: "dirs_added (length (data_location m dh w)) w w1"
    using file_error(1) by (rule ensure_dirs_added)
  from fetch_files_Inl [OF f] obtain item where item: "item \<in> set (ARCHIVE m)"
    "\<not> exists w1 (local_path m dh w (snd item))"
    "(\<not> dl \<and> e = IOError (not_found_message (fst item) (local_path m dh w (snd item))))
         \<or> (dl \<and> download_error (snd item) (local_path m dh w (snd item)) e)"
    unfolding local_path_eq by blast
  have "\<not> exists w (local_path m dh w (snd item))"
    using item(2) da dirs_added_exists by blast
  then show ?thesis using item(1,3) by blast
next
  case (descr_error w1 recs w2 e1)
  then have "os_error e" using assms read_text_os_error by auto
  then show ?thesis by blast
next
  case (success w1 recs w2 d)
  then show ?thesis using assms by simp
qed

lemma fetch_net_calls:
  "\<exists>us. net_calls (snd (fetch m dh dl w)) = net_calls w @ us \<and>
     set us \<subseteq> (url \<circ> snd) ` {item \<in> set (ARCHIVE m). \<not> exists w (local_path m dh w (snd item))}"
proof -
  let ?loc = "data_location m dh w"
  let ?U = "\<lambda>w. (url \<circ> snd) ` {item \<in> set (ARCHIVE m). \<not> exists w (local_path m dh w0 (snd item))}"
  have loop: "\<exists>us. net_calls w2 = net_calls w @ us \<and>
     set us \<subseteq> (url \<circ> snd) ` {item \<in> set (ARCHIVE m). \<not> exists w (local_path m dh w (snd item))}"
    if e: "ensure_dataset_dir ?loc w = (Inr (), w1)"
      and f: "fetch_files (ARCHIVE m) ?loc dl Map.empty w1 = (r, w2)" for w1 r w2
  proof -
    have da: "dirs_added (length ?loc) w w1" using e by (rule ensure_dirs_added)
    have n1: "net_calls w1 = net_calls w" using dirs_added_env(5) [OF da] .
    from fetch_files_net_calls [OF f] obtain us where us: "net_calls w2 = net_calls w1 @ us"
      "set us \<subseteq> (url \<circ> snd) ` {item \<in> set (ARCHIVE m). \<not> exists w1 (join ?loc (filename (snd item)))}"
      by blast
    have "\<not> exists w1 p \<Longrightarrow> \<not> exists w p" for p using da dirs_added_exists by blast
    then have "{item \<in> set (ARCHIVE m). \<not> exists w1 (join ?loc (filename (snd item)))}
        \<subseteq> {item \<in> set (ARCHIVE m). \<not> exists w (join ?loc (filename (snd item)))}"
      by blast
    then have "(url \<circ> snd) ` {item \<in> set (ARCHIVE m). \<not> exists w1 (join ?loc (filename (snd item)))}
        \<subseteq> (url \<circ> snd) ` {item \<in> set (ARCHIVE m). \<not> exists w (join ?loc (filename (snd item)))}"
      by (rule image_mono)
    with us(2) have "set us \<subseteq> (url \<circ> snd) ` {item \<in> set (ARCHIVE m). \<not> exists w (local_path m dh w (snd item))}"
      unfolding local_path_eq by (rule subset_trans)
    then show ?thesis using us(1) n1 by auto
  qed
  show ?thesis
  proof (cases rule: fetch_cases [of m dh w dl])
    case (dir_error e w1)
    have "net_calls w1 = net_calls w"
      using dirs_added_env(5) [OF ensure_dirs_added [OF dir_error(1)]] .
    then show ?thesis unfolding dir_error(2) by simp
  next
    case (file_error w1 e w2)
    from loop [OF file_error(1,2)] show ?thesis unfolding file_error(3) by simp
  next
    case (descr_error w1 recs w2 e)
    from loop [OF descr_error(1,2)] show ?thesis unfolding descr_error(4) by simp
  next
    case (success w1 recs w2 d)
    from loop [OF success(1,2)] show ?thesis unfolding success(4) by simp
  qed
qed

lemma url_determines:
  assumes "item \<in> set (ARCHIVE m)" "item' \<in> set (ARCHIVE m)" "url (snd item) = url (snd item')"
  shows "item = item'"
proof -
  have "inj_on (url \<circ> snd) (set (ARCHIVE m))"
    using distinct_urls [of m] by (simp add: distinct_map)
  then show ?thesis by (rule inj_onD) (simp_all add: assms)
qed

lemma path_determines:
  assumes "item \<in> set (ARCHIVE m)" "item' \<in> set (ARCHIVE m)"
    "join loc (filename (snd item)) = join loc (filename (snd item'))"
  shows "item = item'"
proof -
  have s: "simple (filename (snd item))" "simple (filename (snd item'))"
    using assms(1,2) simple_filename by blast+
  have "filename (snd item) = filename (snd item')"
  proof -
    have h: "filename (snd item) \<noteq> []" "hd (filename (snd item)) \<noteq> sep"
      "filename (snd item') \<noteq> []" "hd (filename (snd item')) \<noteq> sep"
      using s simple_hd by blast+
    show ?thesis using assms(3) h by (auto simp: join_def split: if_splits)
  qed
  moreover have "inj_on (filename \<circ> snd) (set (ARCHIVE m))"
  proof -
    have "distinct (map (filename \<circ> snd) (ARCHIVE m))" by (cases m) simp_all
    then show ?thesis by (simp add: distinct_map)
  qed
  ultimately show ?thesis using assms(1,2) inj_onD [of "filename \<circ> snd" "set (ARCHIVE m)" item item']
    by simp
qed

lemma bundle_role:
  assumes "fetch m dh dl w = (Inr b, w')" and "(role, meta) \<in> set (ARCHIVE m)"
  shows "b role = Some (local_path m dh w meta)"
proof -
  let ?loc = "data_location m dh w"
  from assms(1) obtain w1 recs d where
    f: "fetch_files (ARCHIVE m) ?loc dl Map.empty w1 = (Inr recs, w')" and
    b: "b = recs(''DESCR'' \<mapsto> d)"
    by (rule fetch_success)
  from fetch_files_Inr [OF f] have recs: "recs = assign_paths (ARCHIVE m) ?loc Map.empty"
    by blast
  have "role \<noteq> ''DESCR''" using roles_not_DESCR [OF assms(2)] by simp
  then have "b role = recs role" using b by simp
  also have "\<dots> = Some (join ?loc (filename meta))"
    unfolding recs using distinct_roles assms(2) by (rule assign_paths_lookup)
  finally show ?thesis by (simp add: local_path_eq)
qed

lemma corrupt_run:
  "fetch Adk_equilibrium (Some ''/data'') True corrupt_world = (Inr adk_bundle, corrupt_world)"
  by (simp add: run_defs corrupt_world_def fresh_world_def good_host_def adk_descr_def
      adk_bundle_def)

lemma adk_topology_path:
  "local_path Adk_equilibrium (Some ''/data'') w adk_topology = ''/data/adk_equilibrium/adk4AKE.psf''"
  by (simp add: local_path_def data_location_def get_data_home_def join_def sep_def
      adk_topology_def)

lemma adk_topology_role: "(''topology'', adk_topology) \<in> set (ARCHIVE Adk_equilibrium)"
  by (simp add: adk_topology_def)



















lemma occupied_run:
  "fetch Adk_equilibrium (Some ''/data'') True occupied_world = (Inr adk_bundle, occupied_world)"
  by (simp add: run_defs occupied_world_def fresh_world_def good_host_def adk_descr_def
      adk_bundle_def)

section \<open>The claims\<close>

text \<open>
  C1, as the specification states it: a cached file whose checksum does not
  match is either downloaded again or makes the call fail with an
  IntegrityError, and its path is never returned silently. The call below
  returns the bundle with the path of the empty topology file, makes no network
  call and leaves the file as it is.
\<close>

theorem C1_counterexample:
  "fs corrupt_world ''/data/adk_equilibrium/adk4AKE.psf''
     = Some (RegularFile \<lparr>content = [],
         sha256 = ''e3b0c44298fc1c149afbf4c8996fb92427ae41e4649b934ca495991b7852b855''\<rparr>)
   \<and> \<not> verified corrupt_world adk_topology ''/data/adk_equilibrium/adk4AKE.psf''
   \<and> fetch Adk_equilibrium (Some ''/data'') True corrupt_world = (Inr adk_bundle, corrupt_world)
   \<and> adk_bundle ''topology'' = Some ''/data/adk_equilibrium/adk4AKE.psf''
   \<and> net_calls corrupt_world = []"
  using corrupt_run
  by (simp add: corrupt_world_def fresh_world_def verified_def adk_topology_def adk_bundle_def)

text \<open>
  C1, amended: a file that is present at the cache path of a role is not
  examined. The call leaves the entry at that path as it is, makes no network
  call for the URL of that role, raises no IntegrityError for that path, and
  when it succeeds the bundle holds that path, whatever the checksum of the
  file.
\<close>

theorem C1_existing_file_kept:
  assumes "(role, meta) \<in> set (ARCHIVE m)" and "exists w (local_path m dh w meta)"
  shows "fs (snd (fetch m dh dl w)) (local_path m dh w meta) = fs w (local_path m dh w meta)
     \<and> (\<exists>us. net_calls (snd (fetch m dh dl w)) = net_calls w @ us \<and> url meta \<notin> set us)
     \<and> (\<forall>b. fst (fetch m dh dl w) = Inr b \<longrightarrow> b role = Some (local_path m dh w meta))
     \<and> (\<forall>expected actual.
          fst (fetch m dh dl w) \<noteq> Inl (IntegrityError (local_path m dh w meta) expected actual))"
proof -
  let ?p = "local_path m dh w meta"
  obtain w1 where da: "dirs_added (length (data_location m dh w)) w w1"
    and fa: "files_added (paths_of (ARCHIVE m) (data_location m dh w)) w1 (snd (fetch m dh dl w))"
    by (rule fetch_world)
  have "fs w1 ?p = fs w ?p" using da assms(2) by (rule dirs_added_kept)
  moreover have "exists w1 ?p" using da assms(2) by (rule dirs_added_exists)
  then have "fs (snd (fetch m dh dl w)) ?p = fs w1 ?p" using fa by (intro files_added_kept)
  ultimately have 1: "fs (snd (fetch m dh dl w)) ?p = fs w ?p" by simp
  obtain us where us: "net_calls (snd (fetch m dh dl w)) = net_calls w @ us"
    "set us \<subseteq> (url \<circ> snd) ` {item \<in> set (ARCHIVE m). \<not> exists w (local_path m dh w (snd item))}"
    using fetch_net_calls by blast
  have "url meta \<notin> set us"
  proof
    assume "url meta \<in> set us"
    then obtain item where item: "item \<in> set (ARCHIVE m)"
      "\<not> exists w (local_path m dh w (snd item))" "url (snd item) = url meta"
      using us(2) by auto
    have "item = (role, meta)" using item(1) assms(1) item(3) by (intro url_determines) simp_all
    then show False using item(2) assms(2) by simp
  qed
  then have 2: "\<exists>us. net_calls (snd (fetch m dh dl w)) = net_calls w @ us \<and> url meta \<notin> set us"
    using us(1) by blast
  have 3: "b role = Some ?p" if "fst (fetch m dh dl w) = Inr b" for b
  proof -
    have "fetch m dh dl w = (Inr b, snd (fetch m dh dl w))" using that by (metis prod.collapse)
    then show ?thesis using assms(1) by (rule bundle_role)
  qed
  have 4: "fst (fetch m dh dl w) \<noteq> Inl (IntegrityError ?p expected actual)" for expected actual
  proof
    assume a: "fst (fetch m dh dl w) = Inl (IntegrityError ?p expected actual)"
    from fetch_Inl [OF a] obtain item where item: "item \<in> set (ARCHIVE m)"
      "\<not> exists w (local_path m dh w (snd item))"
      "download_error (snd item) (local_path m dh w (snd item)) (IntegrityError ?p expected actual)"
      by auto
    have "local_path m dh w (snd item) = ?p" using item(3) by (auto simp: download_error_def)
    then show False using item(2) assms(2) by simp
  qed
  show ?thesis using 1 2 3 4 by blast
qed

theorem C1_witness:
  "exists corrupt_world (local_path Adk_equilibrium (Some ''/data'') corrupt_world adk_topology)
   \<and> fs (snd (fetch Adk_equilibrium (Some ''/data'') True corrupt_world))
        ''/data/adk_equilibrium/adk4AKE.psf''
      = fs corrupt_world ''/data/adk_equilibrium/adk4AKE.psf''
   \<and> (\<exists>us. net_calls (snd (fetch Adk_equilibrium (Some ''/data'') True corrupt_world))
         = net_calls corrupt_world @ us \<and> url adk_topology \<notin> set us)
   \<and> fst (fetch Adk_equilibrium (Some ''/data'') True corrupt_world) = Inr adk_bundle
   \<and> adk_bundle ''topology'' = Some ''/data/adk_equilibrium/adk4AKE.psf''"
proof -
  have x: "exists corrupt_world (local_path Adk_equilibrium (Some ''/data'') corrupt_world adk_topology)"
    unfolding adk_topology_path by (simp add: exists_def corrupt_world_def fresh_world_def)
  note t = C1_existing_file_kept [OF adk_topology_role x, of True, unfolded adk_topology_path]
  have r: "fst (fetch Adk_equilibrium (Some ''/data'') True corrupt_world) = Inr adk_bundle"
    using corrupt_run by simp
  have "adk_bundle ''topology'' = Some ''/data/adk_equilibrium/adk4AKE.psf''"
    using t r by blast
  then show ?thesis using x t r by blast
qed

text \<open>
  C2. Fetch is idempotent: when a fetch call succeeds, a second call with the
  same arguments, on the state the first one left, returns the same bundle (the
  same path for every role, the same description) and leaves the state as it
  is. The list of network calls and the log, which gets a record before every
  call of the downloader, are part of the state, so the second call makes no
  network call and does not reach the downloader: every file is there.
\<close>

theorem C2_fetch_idempotent:
  assumes "fetch m dh dl w = (Inr b, w')"
  shows "fetch m dh dl w' = (Inr b, w')"
proof -
  let ?loc = "data_location m dh w"
  from assms obtain w1 recs d where
    e: "ensure_dataset_dir ?loc w = (Inr (), w1)" and
    f: "fetch_files (ARCHIVE m) ?loc dl Map.empty w1 = (Inr recs, w')" and
    rd: "read_text w' (descr_path w' (DESCRIPTION m)) = Inr d" and
    b: "b = recs(''DESCR'' \<mapsto> d)"
    by (rule fetch_success)
  have da: "dirs_added (length ?loc) w w1" using e by (rule ensure_dirs_added)
  have fa: "files_added (paths_of (ARCHIVE m) ?loc) w1 w'" using f by (rule fetch_files_frame)
  have loc: "data_location m dh w' = ?loc"
    by (rule data_location_env) (simp_all add: dirs_added_env [OF da] files_added_env [OF fa])
  have "exists w1 ?loc" using e by (rule ensure_creates)
  then have "exists w' ?loc" using fa files_added_exists by blast
  then have e': "ensure_dataset_dir ?loc w' = (Inr (), w')" by (rule ensure_exists)
  from fetch_files_Inr [OF f] have recs: "recs = assign_paths (ARCHIVE m) ?loc Map.empty"
    and ex: "\<forall>item\<in>set (ARCHIVE m). filename (snd item) \<noteq> [] \<longrightarrow>
               exists w' (join ?loc (filename (snd item)))"
    by blast+
  have "first_missing w' ?loc (ARCHIVE m) = None"
    unfolding first_missing_None using ex simple_filename [of _ m] by (auto simp: simple_def)
  then have f': "fetch_files (ARCHIVE m) ?loc dl Map.empty w' = (Inr recs, w')"
    unfolding recs by (rule fetch_files_present)
  show ?thesis
    unfolding fetch_unfold [of m dh dl w'] loc using e' f' rd b by simp
qed

text \<open>
  The witness: the first call runs against a data home that holds no dataset
  directory and downloads both files; the second call changes nothing.
\<close>

theorem C2_witness:
  "fetch Adk_equilibrium (Some ''/data'') True fresh_world = (Inr adk_bundle, fetched_world)
   \<and> fetch Adk_equilibrium (Some ''/data'') True fetched_world = (Inr adk_bundle, fetched_world)
   \<and> net_calls (snd (fetch Adk_equilibrium (Some ''/data'') True fetched_world))
       = net_calls fetched_world"
  using C2_fetch_idempotent [OF fresh_run] fresh_run by simp

text \<open>
  C3. With \<^verbatim>\<open>download_if_missing=False\<close> and the file of some role missing, the
  call fails with an \<^verbatim>\<open>IOError\<close> (the class, with its subclasses), and neither
  the list of network calls nor the log has grown: the downloader is called
  only after a log record, so it was not called. When the dataset directory is
  there or could be made, the error is the \<^verbatim>\<open>IOError\<close> of the module itself, with
  the message for a role whose file is missing.
\<close>

theorem C3_missing_and_disabled:
  assumes "(role, meta) \<in> set (ARCHIVE m)" and "\<not> exists w (local_path m dh w meta)"
  shows "\<exists>e. fst (fetch m dh False w) = Inl e \<and> is_IOError e
     \<and> net_calls (snd (fetch m dh False w)) = net_calls w
     \<and> info_log (snd (fetch m dh False w)) = info_log w
     \<and> (fst (ensure_dataset_dir (data_location m dh w) w) = Inr () \<longrightarrow>
          (\<exists>role' meta'. (role', meta') \<in> set (ARCHIVE m)
             \<and> \<not> exists w (local_path m dh w meta')
             \<and> e = IOError (not_found_message role' (local_path m dh w meta'))))"
proof -
  let ?loc = "data_location m dh w"
  obtain r1 w1 where r1: "ensure_dataset_dir ?loc w = (r1, w1)"
    by (cases "ensure_dataset_dir ?loc w")
  note n = fetch_disabled_net_calls [of m dh w]
  show ?thesis
  proof (cases r1)
    case (Inl e)
    then have "fetch m dh False w = (Inl e, w1)" using fetch_dir_error r1 by blast
    moreover have "is_IOError e" using ensure_error r1 Inl by blast
    ultimately show ?thesis using n r1 Inl by simp
  next
    case (Inr u)
    then have e1: "ensure_dataset_dir ?loc w = (Inr (), w1)" using r1 by simp
    have "first_missing w ?loc (ARCHIVE m) \<noteq> None"
      unfolding first_missing_None using assms by (force simp: local_path_eq)
    then obtain item where item: "first_missing w ?loc (ARCHIVE m) = Some item" by blast
    have f: "fetch m dh False w =
        (Inl (IOError (not_found_message (fst item) (local_path m dh w (snd item)))), w1)"
      using fetch_disabled [OF e1] item by (simp add: local_path_eq)
    have "(fst item, snd item) \<in> set (ARCHIVE m)" "\<not> exists w (local_path m dh w (snd item))"
      using first_missing_Some [OF item] by (simp_all add: local_path_eq)
    then have "\<exists>role' meta'. (role', meta') \<in> set (ARCHIVE m)
             \<and> \<not> exists w (local_path m dh w meta')
             \<and> IOError (not_found_message (fst item) (local_path m dh w (snd item)))
                 = IOError (not_found_message role' (local_path m dh w meta'))"
      by blast
    then show ?thesis using f n by simp
  qed
qed

theorem C3_witness:
  "\<not> exists fresh_world ''/data/adk_equilibrium/adk4AKE.psf''
   \<and> fst (fetch Adk_equilibrium (Some ''/data'') False fresh_world) =
       Inl (IOError
        ''Data topology=/data/adk_equilibrium/adk4AKE.psf not found and `download_if_missing` is False'')
   \<and> (\<exists>e. fst (fetch Adk_equilibrium (Some ''/data'') False fresh_world) = Inl e \<and> is_IOError e)
   \<and> net_calls (snd (fetch Adk_equilibrium (Some ''/data'') False fresh_world)) = net_calls fresh_world
   \<and> info_log (snd (fetch Adk_equilibrium (Some ''/data'') False fresh_world)) = info_log fresh_world"
proof -
  let ?meta = "\<lparr>filename = ''adk4AKE.psf'',
        url = ''https://ndownloader.figshare.com/files/8672230'',
        checksum = ''1aa947d58fb41b6805dc1e7be4dbe65c6a8f4690f0bd7fc2ae03e7bd437085f4''\<rparr>"
  have h: "(''topology'', ?meta) \<in> set (ARCHIVE Adk_equilibrium)" by simp
  have p: "local_path Adk_equilibrium (Some ''/data'') fresh_world ?meta
           = ''/data/adk_equilibrium/adk4AKE.psf''"
    by (simp add: local_path_def data_location_def get_data_home_def join_def sep_def)
  have x: "\<not> exists fresh_world ''/data/adk_equilibrium/adk4AKE.psf''"
    by (simp add: exists_def fresh_world_def)
  then have x': "\<not> exists fresh_world (local_path Adk_equilibrium (Some ''/data'') fresh_world ?meta)"
    unfolding p .
  from C3_missing_and_disabled [OF h x'] have
    "\<exists>e. fst (fetch Adk_equilibrium (Some ''/data'') False fresh_world) = Inl e \<and> is_IOError e"
    and "net_calls (snd (fetch Adk_equilibrium (Some ''/data'') False fresh_world)) = net_calls fresh_world"
    and "info_log (snd (fetch Adk_equilibrium (Some ''/data'') False fresh_world)) = info_log fresh_world"
    by blast+
  then show ?thesis using x fresh_run_disabled by simp
qed

text \<open>
  C4. Fetch is all or nothing. An error of the directory step, of the loop
  over the files, or of reading the description is the result of the call, and
  a bundle is returned only when none of the three raised. In the loop, the
  first missing file raises the module's \<^verbatim>\<open>IOError\<close> when downloads are
  disabled, and an error of the downloader for it ends the loop as it is.
\<close>

theorem C4_all_or_nothing:
  "(\<forall>e w1. ensure_dataset_dir (data_location m dh w) w = (Inl e, w1) \<longrightarrow>
       fetch m dh dl w = (Inl e, w1))
   \<and> (\<forall>e w1 w2. ensure_dataset_dir (data_location m dh w) w = (Inr (), w1) \<longrightarrow>
       fetch_files (ARCHIVE m) (data_location m dh w) dl Map.empty w1 = (Inl e, w2) \<longrightarrow>
       fetch m dh dl w = (Inl e, w2))
   \<and> (\<forall>e w1 w2 recs. ensure_dataset_dir (data_location m dh w) w = (Inr (), w1) \<longrightarrow>
       fetch_files (ARCHIVE m) (data_location m dh w) dl Map.empty w1 = (Inr recs, w2) \<longrightarrow>
       read_text w2 (descr_path w2 (DESCRIPTION m)) = Inl e \<longrightarrow>
       fetch m dh dl w = (Inl e, w2))
   \<and> (\<forall>b w'. fetch m dh dl w = (Inr b, w') \<longrightarrow>
       (\<exists>w1 recs d. ensure_dataset_dir (data_location m dh w) w = (Inr (), w1)
          \<and> fetch_files (ARCHIVE m) (data_location m dh w) dl Map.empty w1 = (Inr recs, w')
          \<and> read_text w' (descr_path w' (DESCRIPTION m)) = Inr d
          \<and> b = recs(''DESCR'' \<mapsto> d)))
   \<and> (\<forall>w1 item recs. first_missing w1 (data_location m dh w) (ARCHIVE m) = Some item \<longrightarrow>
       fetch_files (ARCHIVE m) (data_location m dh w) False recs w1 =
         (Inl (IOError (not_found_message (fst item)
            (join (data_location m dh w) (filename (snd item))))), w1))
   \<and> (\<forall>w1 item recs e w2. first_missing w1 (data_location m dh w) (ARCHIVE m) = Some item \<longrightarrow>
       fetch_remote (snd item) (data_location m dh w) False
         (w1\<lparr>info_log := info_log w1 @
            [downloading_message (fst item) (url (snd item))
               (join (data_location m dh w) (filename (snd item)))]\<rparr>) = (Inl e, w2) \<longrightarrow>
       fetch_files (ARCHIVE m) (data_location m dh w) True recs w1 = (Inl e, w2))"
proof -
  let ?loc = "data_location m dh w"
  have 1: "fetch m dh dl w = (Inl e, w1)"
    if "ensure_dataset_dir ?loc w = (Inl e, w1)" for e w1
    using that by (rule fetch_dir_error)
  have 2: "fetch m dh dl w = (Inl e, w2)"
    if "ensure_dataset_dir ?loc w = (Inr (), w1)"
      "fetch_files (ARCHIVE m) ?loc dl Map.empty w1 = (Inl e, w2)" for e w1 w2
    using that by (simp add: fetch_unfold [of m dh dl w])
  have 3: "fetch m dh dl w = (Inl e, w2)"
    if "ensure_dataset_dir ?loc w = (Inr (), w1)"
      "fetch_files (ARCHIVE m) ?loc dl Map.empty w1 = (Inr recs, w2)"
      "read_text w2 (descr_path w2 (DESCRIPTION m)) = Inl e" for e w1 w2 recs
    using that by (simp add: fetch_unfold [of m dh dl w])
  have 4: "\<exists>w1 recs d. ensure_dataset_dir ?loc w = (Inr (), w1)
          \<and> fetch_files (ARCHIVE m) ?loc dl Map.empty w1 = (Inr recs, w')
          \<and> read_text w' (descr_path w' (DESCRIPTION m)) = Inr d
          \<and> b = recs(''DESCR'' \<mapsto> d)"
    if "fetch m dh dl w = (Inr b, w')" for b w'
    using fetch_success [OF that] by metis
  have 5: "fetch_files (ARCHIVE m) ?loc False recs w1 =
         (Inl (IOError (not_found_message (fst item) (join ?loc (filename (snd item))))), w1)"
    if "first_missing w1 ?loc (ARCHIVE m) = Some item" for w1 item recs
    unfolding fetch_files_disabled that by simp
  have 6: "fetch_files (ARCHIVE m) ?loc True recs w1 = (Inl e, w2)"
    if "first_missing w1 ?loc (ARCHIVE m) = Some item"
      "fetch_remote (snd item) ?loc False
         (w1\<lparr>info_log := info_log w1 @
            [downloading_message (fst item) (url (snd item)) (join ?loc (filename (snd item)))]\<rparr>)
       = (Inl e, w2)" for w1 item recs e w2
    using that(1) _ that(2) by (rule fetch_files_first_missing_download) simp
  show ?thesis
    apply (intro conjI allI impI)
    subgoal by (rule 1)
    subgoal by (rule 2)
    subgoal by (rule 3)
    subgoal by (rule 4)
    subgoal by (rule 5)
    subgoal by (rule 6)
    done
qed

text \<open>
  The witness: the host serves a topology file with the wrong digest; the
  downloader's error ends the loop and is the result of the call.
\<close>

theorem C4_witness:
  "ensure_dataset_dir (data_location Adk_equilibrium (Some ''/data'') bad_host_world) bad_host_world
     = (Inr (), bad_host_world)
   \<and> fetch_files (ARCHIVE Adk_equilibrium)
         (data_location Adk_equilibrium (Some ''/data'') bad_host_world) True Map.empty bad_host_world
     = (Inl bad_host_error, bad_host_after)
   \<and> fetch Adk_equilibrium (Some ''/data'') True bad_host_world = (Inl bad_host_error, bad_host_after)"
proof -
  have e: "ensure_dataset_dir (data_location Adk_equilibrium (Some ''/data'') bad_host_world)
             bad_host_world = (Inr (), bad_host_world)"
    by (simp add: ensure_dataset_dir_def data_location_def get_data_home_def join_def sep_def
        exists_def bad_host_world_def fresh_world_def)
  have f: "fetch_files (ARCHIVE Adk_equilibrium)
         (data_location Adk_equilibrium (Some ''/data'') bad_host_world) True Map.empty bad_host_world
     = (Inl bad_host_error, bad_host_after)"
    by (simp add: data_location_def run_defs bad_host_world_def bad_host_error_def
        bad_host_after_def fresh_world_def good_host_def adk_descr_def)
  have "fetch Adk_equilibrium (Some ''/data'') True bad_host_world = (Inl bad_host_error, bad_host_after)"
    using C4_all_or_nothing [of Adk_equilibrium "Some ''/data''" bad_host_world True,
        THEN conjunct2, THEN conjunct1, rule_format, OF e f] .
  then show ?thesis using e f by (intro conjI)
qed

text \<open>
  C5, as the specification states it: at return time a file exists at every
  path of the bundle. The test the module makes before it skips a download is
  \<^verbatim>\<open>os.path.exists\<close>, which a directory passes. In the state below a directory
  stands at the path of the topology file; the call succeeds, changes nothing,
  and returns that path, at which there is a directory and no file.
\<close>

theorem C5_counterexample:
  "fetch Adk_equilibrium (Some ''/data'') True occupied_world = (Inr adk_bundle, occupied_world)
   \<and> (''topology'', adk_topology) \<in> set (ARCHIVE Adk_equilibrium)
   \<and> adk_bundle ''topology'' = Some ''/data/adk_equilibrium/adk4AKE.psf''
   \<and> join (join (get_data_home (Some ''/data'') occupied_world) (NAME Adk_equilibrium))
        (filename adk_topology) = ''/data/adk_equilibrium/adk4AKE.psf''
   \<and> fs occupied_world ''/data/adk_equilibrium/adk4AKE.psf'' = Some Directory"
proof -
  have 1: "adk_bundle ''topology'' = Some ''/data/adk_equilibrium/adk4AKE.psf''"
    by (simp add: adk_bundle_def)
  have 2: "join (join (get_data_home (Some ''/data'') occupied_world) (NAME Adk_equilibrium))
        (filename adk_topology) = ''/data/adk_equilibrium/adk4AKE.psf''"
    by (simp add: get_data_home_def join_def sep_def adk_topology_def)
  have 3: "fs occupied_world ''/data/adk_equilibrium/adk4AKE.psf'' = Some Directory"
    by (simp add: occupied_world_def)
  show ?thesis using occupied_run adk_topology_role 1 2 3 by (intro conjI)
qed

text \<open>
  C5, amended: a successful fetch returns, for every role of the archive, the
  path \<^verbatim>\<open>join(join(data_home, NAME), filename)\<close>; that path ends in the declared
  file name, it is \<^verbatim>\<open><data_home>/<NAME>/<filename>\<close> letter for letter when the
  data home does not end in a separator, and when the call returns something
  exists at it: a regular file, or else a directory that stood at that path
  before the call already.
\<close>

theorem C5_bundle_paths:
  assumes "fetch m dh dl w = (Inr b, w')" and "(role, meta) \<in> set (ARCHIVE m)"
  shows "b role = Some (join (join (get_data_home dh w) (NAME m)) (filename meta))
     \<and> suffix (filename meta) (join (join (get_data_home dh w) (NAME m)) (filename meta))
     \<and> exists w' (join (join (get_data_home dh w) (NAME m)) (filename meta))
     \<and> ((\<exists>f. fs w' (join (join (get_data_home dh w) (NAME m)) (filename meta))
                = Some (RegularFile f))
        \<or> (fs w (join (join (get_data_home dh w) (NAME m)) (filename meta)) = Some Directory
           \<and> fs w' (join (join (get_data_home dh w) (NAME m)) (filename meta)) = Some Directory))
     \<and> (get_data_home dh w \<noteq> [] \<and> last (get_data_home dh w) \<noteq> sep \<longrightarrow>
          join (join (get_data_home dh w) (NAME m)) (filename meta)
          = get_data_home dh w @ ''/'' @ NAME m @ ''/'' @ filename meta)"
proof -
  let ?loc = "data_location m dh w"
  let ?p = "join ?loc (filename meta)"
  have loc: "join (get_data_home dh w) (NAME m) = ?loc" by (simp add: data_location_def)
  from assms(1) obtain w1 recs d where
    e: "ensure_dataset_dir ?loc w = (Inr (), w1)" and
    f: "fetch_files (ARCHIVE m) ?loc dl Map.empty w1 = (Inr recs, w')" and
    b: "b = recs(''DESCR'' \<mapsto> d)"
    by (rule fetch_success)
  from fetch_files_Inr [OF f] have recs: "recs = assign_paths (ARCHIVE m) ?loc Map.empty"
    and ex: "\<forall>item\<in>set (ARCHIVE m). filename (snd item) \<noteq> [] \<longrightarrow>
               exists w' (join ?loc (filename (snd item)))"
    by blast+
  have s: "simple (filename meta)" using simple_filename [OF assms(2)] by simp
  have "role \<noteq> ''DESCR''" using roles_not_DESCR [OF assms(2)] by simp
  then have "b role = recs role" using b by simp
  also have "\<dots> = Some (join ?loc (filename meta))"
    unfolding recs using distinct_roles assms(2) by (rule assign_paths_lookup)
  finally have 1: "b role = Some ?p" .
  have 2: "suffix (filename meta) ?p" by (rule join_suffix)
  have 3: "exists w' ?p"
    using ex assms(2) s by (auto simp: simple_def)
  have 4: "get_data_home dh w \<noteq> [] \<and> last (get_data_home dh w) \<noteq> sep \<longrightarrow>
          join (join (get_data_home dh w) (NAME m)) (filename meta)
          = get_data_home dh w @ ''/'' @ NAME m @ ''/'' @ filename meta"
    using join_layout [OF _ _ simple_NAME s] by blast
  have 5: "(\<exists>f. fs w' ?p = Some (RegularFile f))
        \<or> (fs w ?p = Some Directory \<and> fs w' ?p = Some Directory)"
  proof (cases "fs w' ?p")
    case None
    then show ?thesis using 3 by (simp add: exists_def)
  next
    case (Some x)
    show ?thesis
    proof (cases x)
      case Directory
      have da: "dirs_added (length ?loc) w w1" using e by (rule ensure_dirs_added)
      have fa: "files_added (paths_of (ARCHIVE m) ?loc) w1 w'" using f by (rule fetch_files_frame)
      have "fs w' ?p = fs w1 ?p" using files_added_at [OF fa, of ?p] Some Directory by auto
      moreover have "length ?loc < length ?p"
        using local_path_longer [OF assms(2)] by simp
      then have "fs w1 ?p = fs w ?p" using da by (rule dirs_added_longer [rotated])
      ultimately show ?thesis using Some Directory by simp
    next
      case (RegularFile f)
      then show ?thesis using Some by simp
    qed
  qed
  show ?thesis unfolding loc using 1 2 3 4 [unfolded loc] 5 by blast
qed

theorem C5_witness:
  "fetch Adk_equilibrium (Some ''/data'') True fresh_world = (Inr adk_bundle, fetched_world)
   \<and> adk_bundle ''trajectory'' = Some ''/data/adk_equilibrium/1ake_007-nowater-core-dt240ps.dcd''
   \<and> suffix ''1ake_007-nowater-core-dt240ps.dcd''
        ''/data/adk_equilibrium/1ake_007-nowater-core-dt240ps.dcd''
   \<and> exists fetched_world ''/data/adk_equilibrium/1ake_007-nowater-core-dt240ps.dcd''
   \<and> (\<exists>f. fs fetched_world ''/data/adk_equilibrium/1ake_007-nowater-core-dt240ps.dcd''
            = Some (RegularFile f))
   \<and> ''/data/adk_equilibrium/1ake_007-nowater-core-dt240ps.dcd''
       = get_data_home (Some ''/data'') fresh_world @ ''/'' @ NAME Adk_equilibrium @ ''/''
           @ ''1ake_007-nowater-core-dt240ps.dcd''"
proof -
  let ?meta = "\<lparr>filename = ''1ake_007-nowater-core-dt240ps.dcd'',
        url = ''https://ndownloader.figshare.com/files/8672074'',
        checksum = ''598fcbcfcc425f6eafbe9997238320fcacc6a4613ecce061e1521732bab734bf''\<rparr>"
  let ?p = "''/data/adk_equilibrium/1ake_007-nowater-core-dt240ps.dcd''"
  have h: "(''trajectory'', ?meta) \<in> set (ARCHIVE Adk_equilibrium)"
    by simp
  have p: "join (join (get_data_home (Some ''/data'') fresh_world) (NAME Adk_equilibrium))
             ''1ake_007-nowater-core-dt240ps.dcd'' = ?p"
    by (simp add: get_data_home_def join_def sep_def)
  have f: "filename ?meta = ''1ake_007-nowater-core-dt240ps.dcd''"
    by simp
  have g: "get_data_home (Some ''/data'') fresh_world \<noteq> []
      \<and> last (get_data_home (Some ''/data'') fresh_world) \<noteq> sep"
    by (simp add: get_data_home_def sep_def)
  have n: "fs fresh_world ?p \<noteq> Some Directory"
    by (simp add: fresh_world_def)
  note t = C5_bundle_paths [OF fresh_run h, unfolded f, unfolded p]
  have 5: "\<exists>f. fs fetched_world ?p = Some (RegularFile f)"
    using t [THEN conjunct2, THEN conjunct2, THEN conjunct2, THEN conjunct1] n
    by (elim disjE conjE) (assumption, erule (1) notE)
  note 6 = t [THEN conjunct2, THEN conjunct2, THEN conjunct2, THEN conjunct2, THEN mp, OF g]
  show ?thesis
    apply (intro conjI)
         apply (rule fresh_run)
        apply (rule t [THEN conjunct1])
       apply (rule t [THEN conjunct2, THEN conjunct1])
      apply (rule t [THEN conjunct2, THEN conjunct2, THEN conjunct1])
     apply (rule 5)
    apply (rule 6)
    done
qed








text \<open>
  C9. With \<^verbatim>\<open>download_if_missing=False\<close> a fetch call never reaches the
  downloader, in any state: the state it leaves is the one the directory
  statement left, so the list of network calls and the log, which gets a record
  before every call of the downloader, are as before. The call returns a bundle
  only when every file was there before it; when a file is missing, and the
  dataset directory is there or could be made, it raises the \<^verbatim>\<open>IOError\<close> for the
  first missing role in the order of \<^verbatim>\<open>ARCHIVE\<close>; and when every file and the
  directory are there, it returns the bundle if the description can be read.
\<close>

theorem C9_disabled_never_downloads:
  "snd (fetch m dh False w) = snd (ensure_dataset_dir (data_location m dh w) w)
   \<and> net_calls (snd (fetch m dh False w)) = net_calls w
   \<and> info_log (snd (fetch m dh False w)) = info_log w
   \<and> (\<forall>b. fst (fetch m dh False w) = Inr b \<longrightarrow>
         first_missing w (data_location m dh w) (ARCHIVE m) = None)
   \<and> (\<forall>item. first_missing w (data_location m dh w) (ARCHIVE m) = Some item \<longrightarrow>
         fst (ensure_dataset_dir (data_location m dh w) w) = Inr () \<longrightarrow>
         fetch m dh False w =
           (Inl (IOError (not_found_message (fst item)
              (join (data_location m dh w) (filename (snd item))))),
            snd (ensure_dataset_dir (data_location m dh w) w)))
   \<and> (\<forall>d. first_missing w (data_location m dh w) (ARCHIVE m) = None \<longrightarrow>
         exists w (data_location m dh w) \<longrightarrow>
         read_text w (descr_path w (DESCRIPTION m)) = Inr d \<longrightarrow>
         fetch m dh False w =
           (Inr ((assign_paths (ARCHIVE m) (data_location m dh w) Map.empty)(''DESCR'' \<mapsto> d)), w))"
proof -
  let ?loc = "data_location m dh w"
  obtain r1 w1 where r1: "ensure_dataset_dir ?loc w = (r1, w1)"
    by (cases "ensure_dataset_dir ?loc w")
  have 0: "snd (fetch m dh False w) = snd (ensure_dataset_dir ?loc w)"
    by (rule fetch_disabled_state)
  have 1: "net_calls (snd (fetch m dh False w)) = net_calls w"
    "info_log (snd (fetch m dh False w)) = info_log w"
    by (rule fetch_disabled_net_calls)+
  have 2: "first_missing w ?loc (ARCHIVE m) = None" if "fst (fetch m dh False w) = Inr b" for b
  proof (cases r1)
    case (Inl e)
    then have "fetch m dh False w = (Inl e, w1)" using fetch_dir_error r1 by blast
    then show ?thesis using that by simp
  next
    case (Inr u)
    then have "ensure_dataset_dir ?loc w = (Inr (), w1)" using r1 by simp
    from fetch_disabled [OF this] that show ?thesis
      by (cases "first_missing w ?loc (ARCHIVE m)") simp_all
  qed
  have 3: "fetch m dh False w =
           (Inl (IOError (not_found_message (fst item) (join ?loc (filename (snd item))))),
            snd (ensure_dataset_dir ?loc w))"
    if "first_missing w ?loc (ARCHIVE m) = Some item" "fst (ensure_dataset_dir ?loc w) = Inr ()"
    for item
  proof -
    have "ensure_dataset_dir ?loc w = (Inr (), w1)" using that(2) r1 by simp
    from fetch_disabled [OF this] that(1) r1 show ?thesis by simp
  qed
  have 4: "fetch m dh False w =
           (Inr ((assign_paths (ARCHIVE m) ?loc Map.empty)(''DESCR'' \<mapsto> d)), w)"
    if "first_missing w ?loc (ARCHIVE m) = None" "exists w ?loc"
      "read_text w (descr_path w (DESCRIPTION m)) = Inr d" for d
  proof -
    have "ensure_dataset_dir ?loc w = (Inr (), w)" using that(2) by (rule ensure_exists)
    from fetch_disabled [OF this] that(1,3) show ?thesis by simp
  qed
  show ?thesis using 0 1 2 3 4 by blast
qed

theorem C9_witness:
  "net_calls (snd (fetch Adk_equilibrium (Some ''/data'') False partial_world))
     = net_calls partial_world
   \<and> first_missing partial_world (data_location Adk_equilibrium (Some ''/data'') partial_world)
        (ARCHIVE Adk_equilibrium)
      = Some (''trajectory'',
          \<lparr>filename = ''1ake_007-nowater-core-dt240ps.dcd'',
           url = ''https://ndownloader.figshare.com/files/8672074'',
           checksum = ''598fcbcfcc425f6eafbe9997238320fcacc6a4613ecce061e1521732bab734bf''\<rparr>)
   \<and> fst (ensure_dataset_dir (data_location Adk_equilibrium (Some ''/data'') partial_world)
        partial_world) = Inr ()
   \<and> fetch Adk_equilibrium (Some ''/data'') False partial_world =
     (Inl (IOError
        ''Data trajectory=/data/adk_equilibrium/1ake_007-nowater-core-dt240ps.dcd not found and `download_if_missing` is False''),
      partial_world)"
proof -
  have 1: "net_calls (snd (fetch Adk_equilibrium (Some ''/data'') False partial_world))
     = net_calls partial_world"
    using C9_disabled_never_downloads [of Adk_equilibrium "Some ''/data''" partial_world]
    by blast
  have 2: "first_missing partial_world (data_location Adk_equilibrium (Some ''/data'') partial_world)
        (ARCHIVE Adk_equilibrium)
      = Some (''trajectory'',
          \<lparr>filename = ''1ake_007-nowater-core-dt240ps.dcd'',
           url = ''https://ndownloader.figshare.com/files/8672074'',
           checksum = ''598fcbcfcc425f6eafbe9997238320fcacc6a4613ecce061e1521732bab734bf''\<rparr>)"
    by (simp add: first_missing_def data_location_def get_data_home_def join_def sep_def
        exists_def partial_world_def fresh_world_def)
  have 3: "fst (ensure_dataset_dir (data_location Adk_equilibrium (Some ''/data'') partial_world)
        partial_world) = Inr ()"
    by (simp add: ensure_dataset_dir_def data_location_def get_data_home_def join_def sep_def
        exists_def partial_world_def fresh_world_def)
  show ?thesis using 1 2 3 partial_run_disabled by simp
qed

text \<open>
  C10. The keys of a returned bundle are the roles of the module's
  \<^verbatim>\<open>ARCHIVE\<close> and \<^verbatim>\<open>DESCR\<close>, whatever the cache held: topology, trajectory
  and DESCR for \<^verbatim>\<open>adk_equilibrium\<close>; topology, structure, trajectory and DESCR
  for \<^verbatim>\<open>ifabp_water\<close>.
\<close>

theorem C10_bundle_keys:
  assumes "fetch m dh dl w = (Inr b, w')"
  shows "dom b = insert ''DESCR'' (fst ` set (ARCHIVE m))
     \<and> dom b = (case m of
          Adk_equilibrium \<Rightarrow> {''topology'', ''trajectory'', ''DESCR''}
        | Ifabp_water \<Rightarrow> {''topology'', ''structure'', ''trajectory'', ''DESCR''})"
proof -
  let ?loc = "data_location m dh w"
  from assms(1) obtain w1 recs d where
    f: "fetch_files (ARCHIVE m) ?loc dl Map.empty w1 = (Inr recs, w')" and
    b: "b = recs(''DESCR'' \<mapsto> d)"
    by (rule fetch_success)
  from fetch_files_Inr [OF f] have recs: "recs = assign_paths (ARCHIVE m) ?loc Map.empty"
    by blast
  have "dom recs = fst ` set (ARCHIVE m)" unfolding recs dom_assign_paths by simp
  then have 1: "dom b = insert ''DESCR'' (fst ` set (ARCHIVE m))" using b by simp
  have 2: "insert ''DESCR'' (fst ` set (ARCHIVE m)) = (case m of
          Adk_equilibrium \<Rightarrow> {''topology'', ''trajectory'', ''DESCR''}
        | Ifabp_water \<Rightarrow> {''topology'', ''structure'', ''trajectory'', ''DESCR''})"
    by (cases m) (simp_all add: insert_commute)
  show ?thesis using 1 2 by simp
qed

theorem C10_witness:
  "fetch Adk_equilibrium (Some ''/data'') True fresh_world = (Inr adk_bundle, fetched_world)
   \<and> dom adk_bundle = {''topology'', ''trajectory'', ''DESCR''}"
  using conjunct2 [OF C10_bundle_keys [OF fresh_run]] fresh_run by simp

end
